theory Spec2Isabelle
  imports Complex_Main "HOL-Library.Multiset"
begin

section \<open>Errors, results and scoped acquisition\<close>

text \<open>
  Every raise of the Python source is a value: a computation on a state \<open>'s\<close> returns
  either an error or a result, together with the state it leaves behind. The state is kept
  on the error path as well, because the claims are about what an aborted run leaves.
\<close>

datatype error =
    LoadError
  | TracingError
  | UnresolvedDependencyError
  | NodeEvaluationError
  | UserError
  | KeyError
  | AttributeError
  | AlreadyAppliedError
  | RuntimeError

type_synonym ('s, 'r) run = "'s \<Rightarrow> (error + 'r) \<times> 's"

definition then_do :: "('s, 'a) run \<Rightarrow> ('a \<Rightarrow> ('s, 'b) run) \<Rightarrow> ('s, 'b) run" where
  "then_do m f s = (case m s of (Inl e, s') \<Rightarrow> (Inl e, s') | (Inr a, s') \<Rightarrow> f a s')"

text \<open>
  Python's \<^verbatim>\<open>with cm: body\<close>: \<^verbatim>\<open>__enter__\<close> runs, then the body, and
  \<^verbatim>\<open>__exit__\<close> runs whether the body returned or raised; the body's exception
  propagates afterwards.
\<close>

definition with_cm :: "('s \<Rightarrow> 's) \<Rightarrow> ('s \<Rightarrow> 's) \<Rightarrow> ('s, 'r) run \<Rightarrow> ('s, 'r) run" where
  "with_cm enter exit body s = (case body (enter s) of (r, s') \<Rightarrow> (r, exit s'))"

text \<open>
  When \<^verbatim>\<open>__enter__\<close> itself raises, Python runs neither the body nor \<^verbatim>\<open>__exit__\<close>:
  the exception propagates with whatever the entry has done so far.
\<close>

definition with_cm_try :: "('s, unit) run \<Rightarrow> ('s \<Rightarrow> 's) \<Rightarrow> ('s, 'r) run \<Rightarrow> ('s, 'r) run" where
  "with_cm_try enter exit body s =
     (case enter s of
        (Inl e, s1) \<Rightarrow> (Inl e, s1)
      | (Inr u, s1) \<Rightarrow> (case body s1 of (r, s2) \<Rightarrow> (r, exit s2)))"

section \<open>Data model\<close>

type_synonym path = string
type_synonym gid = nat

text \<open>
  The two edit kinds built by \<^verbatim>\<open>modulize\<close>: \<^verbatim>\<open>WrapperModuleEdit(module_path, module_name)\<close>,
  whose third component is the \<^verbatim>\<open>module_path\<close> attribute of its wrapper (unset on a
  fresh wrapper), and \<^verbatim>\<open>GraphEdit(module_path, graph)\<close>. A graph is a Python object
  shared by reference, so the edit holds the identity of the graph, and the graphs live in
  a store.
\<close>

datatype edit = WrapperModuleEdit path string "path option" | GraphEdit path gid

datatype hook = InputHook path | OutputHook path | IncrementHook gid

record node =
  node_name :: string
  node_target :: string
  node_args :: "string list"

record graph =
  nodes :: "(string \<times> node) list"
  argument_node_names :: "(string \<times> string list) list"
  step_counter :: nat

text \<open>
  The local (real) model, a \<^verbatim>\<open>torch.nn.Module\<close>: its parameters with their
  \<^verbatim>\<open>requires_grad\<close> flags, the train/eval flag, the edits in effect on its module tree
  and the hooks registered on it.
\<close>

record local_model =
  params :: "(string \<times> bool) list"
  training :: bool
  applied :: "edit multiset"
  hooks :: "hook multiset"

record meta_model =
  meta_applied :: "edit multiset"

text \<open>
  The first argument of the constructor: a repository id or path, or a module that is
  already built, with the name of its class.
\<close>

datatype model_source = Repo string | Module string local_model

text \<open>A \<^verbatim>\<open>Module\<close> wrapper of the meta model, as far as \<^verbatim>\<open>modulize\<close> reads it.\<close>

record module_wrapper =
  module_path :: path
  module_graph :: gid

record patch =
  patch_parent :: string
  patch_key :: string
  patch_replacement :: string
  patch_orig :: string

record patcher =
  patches :: "patch list"
  entered :: bool

type_synonym bindings = "string \<times> string \<Rightarrow> string"

text \<open>
  The observable trace of a run: every call that leaves \<^verbatim>\<open>AbstractModel\<close> for a
  collaborator is logged in the order in which the source makes it. The call of the user
  function is logged with its arguments and with the surroundings it runs in: the
  \<^verbatim>\<open>torch.inference_mode\<close> flag and the training flag of the local model at that moment.
\<close>

datatype ('i, 'x) event =
    EvLoadMeta
  | EvRunMeta
  | EvLoadLocal
  | EvFreeze
  | EvEdit edit
  | EvRestore edit
  | EvCompile gid
  | EvRegisterIncrement gid
  | EvRemoveIncrement gid
  | EvEval
  | EvTrain
  | EvInferenceEnter bool
  | EvInferenceExit
  | EvHookInstall path
  | EvHookRemove path
  | EvFn 'i "'x list" "(string \<times> 'x) list" bool "bool option"
  | EvForward

text \<open>
  One record holds the fields of the \<^verbatim>\<open>AbstractModel\<close> instance (down to
  \<open>meta_model\<close>) and the process-wide state around it: the attribute bindings of the
  imported Python modules that patches replace, the \<^verbatim>\<open>torch.inference_mode\<close> flag, the
  store of graph objects, the table \<^verbatim>\<open>REPOID_TO_ALTERATION\<close> and the trace.
\<close>

record ('i, 'x) state =
  repoid_path_clsname :: string
  args :: "'x list"
  kwargs :: "(string \<times> 'x) list"
  alter :: bool
  dispatched :: bool
  custom_model :: bool
  local_model :: "local_model option"
  tokenizer :: "string option"
  edits :: "edit list"
  meta_model :: meta_model
  bindings :: bindings
  inference_mode :: bool
  graphs :: "gid \<Rightarrow> graph"
  REPOID_TO_ALTERATION :: "string \<Rightarrow> patch list option"
  trace :: "('i, 'x) event list"

text \<open>
  What the user function does when it is called: it completes some number of forward
  passes of the local model and then returns a value or raises. An exception raised while a
  node is evaluated inside a hook surfaces here, as the error of the user function.
\<close>

datatype 'o outcome = Outcome nat "error + 'o"

text \<open>
  The abstract methods of \<^verbatim>\<open>AbstractModel\<close> and the methods of \<^verbatim>\<open>Graph\<close> that the
  source calls are parameters: \<^verbatim>\<open>_load_meta\<close>, \<^verbatim>\<open>_load_local\<close>, \<^verbatim>\<open>_run_meta\<close>,
  \<^verbatim>\<open>Graph.compile\<close> and the call of a module proxy on a node.
\<close>

record 'x adapter =
  load_meta :: "string \<Rightarrow> 'x list \<Rightarrow> (string \<times> 'x) list \<Rightarrow> bindings \<Rightarrow> error + meta_model"
  load_local :: "string \<Rightarrow> 'x list \<Rightarrow> (string \<times> 'x) list \<Rightarrow> bindings \<Rightarrow> error + local_model"
  run_meta :: "bindings \<Rightarrow> error option \<times> bindings"
  compile :: "graph \<Rightarrow> local_model option \<Rightarrow> error + graph"
  proxy_call :: "graph \<Rightarrow> string \<Rightarrow> node \<Rightarrow> graph"

definition log :: "('i, 'x) event \<Rightarrow> ('i, 'x) state \<Rightarrow> ('i, 'x) state" where
  "log e s = s\<lparr>trace := trace s @ [e]\<rparr>"

definition upd_local :: "(local_model \<Rightarrow> local_model) \<Rightarrow> ('i, 'x) state \<Rightarrow> ('i, 'x) state" where
  "upd_local f s = s\<lparr>local_model := map_option f (local_model s)\<rparr>"

section \<open>Patches\<close>

text \<open>
  Modelled from the spec: \<^verbatim>\<open>Patch\<close> and \<^verbatim>\<open>Patcher\<close> (module \<^verbatim>\<open>nnsight.patching\<close>) are
  not among the source files. The spec describes a reversible substitution table, installed
  on enter and restored on exit, also when the body fails. A patch replaces the attribute
  \<open>key\<close> of a parent module by a replacement and remembers the binding it found when it was
  created. \<^verbatim>\<open>Patcher.add\<close> inside an entered patcher installs the patch at once, which is
  what \<^verbatim>\<open>Mamba._scan\<close> relies on.
\<close>

definition Patch :: "bindings \<Rightarrow> string \<Rightarrow> string \<Rightarrow> string \<Rightarrow> patch" where
  "Patch b parent replacement key =
     \<lparr>patch_parent = parent, patch_key = key, patch_replacement = replacement,
      patch_orig = b (parent, key)\<rparr>"

definition patch_install :: "patch \<Rightarrow> bindings \<Rightarrow> bindings" where
  "patch_install p b = b((patch_parent p, patch_key p) := patch_replacement p)"

definition patch_restore :: "patch \<Rightarrow> bindings \<Rightarrow> bindings" where
  "patch_restore p b = b((patch_parent p, patch_key p) := patch_orig p)"

definition Patcher :: "patch list \<Rightarrow> patcher" where
  "Patcher ps = \<lparr>patches = ps, entered = False\<rparr>"

definition Patcher_add :: "patch \<Rightarrow> patcher \<times> bindings \<Rightarrow> patcher \<times> bindings" where
  "Patcher_add p pb =
     (case pb of (pt, b) \<Rightarrow>
        (pt\<lparr>patches := patches pt @ [p]\<rparr>, if entered pt then patch_install p b else b))"

definition Patcher_enter :: "patcher \<times> bindings \<Rightarrow> patcher \<times> bindings" where
  "Patcher_enter pb =
     (case pb of (pt, b) \<Rightarrow> (pt\<lparr>entered := True\<rparr>, fold patch_install (patches pt) b))"

definition Patcher_exit :: "patcher \<times> bindings \<Rightarrow> patcher \<times> bindings" where
  "Patcher_exit pb =
     (case pb of (pt, b) \<Rightarrow> (pt\<lparr>entered := False\<rparr>, fold patch_restore (patches pt) b))"

section \<open>Edits and hooks\<close>

text \<open>
  Modelled from the spec: \<^verbatim>\<open>Edit.edit\<close> and \<^verbatim>\<open>Edit.restore\<close> (module
  \<^verbatim>\<open>nnsight.editing\<close>) are not among the source files. The spec says that an edit has an
  apply contract and an implicit inverse, and that applying an edit that is already applied
  fails with \<^verbatim>\<open>AlreadyAppliedError\<close> instead of inserting twice. The argument is the bag of
  edits in effect on the target.
\<close>

definition edit_apply :: "edit \<Rightarrow> edit multiset \<Rightarrow> error + edit multiset" where
  "edit_apply e M = (if e \<in># M then Inl AlreadyAppliedError else Inr (add_mset e M))"

definition edit_restore :: "edit \<Rightarrow> edit multiset \<Rightarrow> edit multiset" where
  "edit_restore e M = M - {#e#}"

text \<open>Whether a list of edits can be applied in order on top of the edits in effect.\<close>

fun appliable :: "edit list \<Rightarrow> edit multiset \<Rightarrow> bool" where
  "appliable [] M = True"
| "appliable (e # es) M = (e \<notin># M \<and> appliable es (add_mset e M))"

definition editor_ok :: "edit list \<Rightarrow> local_model option \<Rightarrow> bool" where
  "editor_ok es lm = (case lm of None \<Rightarrow> True | Some m \<Rightarrow> appliable es (applied m))"

text \<open>
  Modelled from the spec: the \<^verbatim>\<open>Editor\<close> context manager (module \<^verbatim>\<open>nnsight.editing\<close>)
  is not among the source files. The spec says that the edits of the list are applied at
  entry, in order, and reverted at exit, also on failure of the run. The source hands the
  owning model to the \<^verbatim>\<open>Editor\<close>; following the comment in \<^verbatim>\<open>modulize\<close>, the edits
  take effect on the local model. An edit that fails at entry ends the entry there.
\<close>

definition apply_edit :: "edit \<Rightarrow> (('i, 'x) state, unit) run" where
  "apply_edit e s =
     (case local_model s of
        None \<Rightarrow> (Inr (), log (EvEdit e) s)
      | Some m \<Rightarrow>
          (case edit_apply e (applied m) of
             Inl err \<Rightarrow> (Inl err, log (EvEdit e) s)
           | Inr M \<Rightarrow> (Inr (), log (EvEdit e) (s\<lparr>local_model := Some (m\<lparr>applied := M\<rparr>)\<rparr>))))"

fun Editor_enter :: "edit list \<Rightarrow> (('i, 'x) state, unit) run" where
  "Editor_enter [] s = (Inr (), s)"
| "Editor_enter (e # es) s = then_do (apply_edit e) (\<lambda>u. Editor_enter es) s"

definition Editor_exit :: "edit list \<Rightarrow> ('i, 'x) state \<Rightarrow> ('i, 'x) state" where
  "Editor_exit es s =
     fold (\<lambda>e s'. log (EvRestore e) (upd_local (\<lambda>m. m\<lparr>applied := edit_restore e (applied m)\<rparr>) s')) es s"

text \<open>
  Modelled from the spec: \<^verbatim>\<open>HookModel\<close> (module \<^verbatim>\<open>nnsight.intervention\<close>) is not among
  the source files. The spec says that input and output hooks are installed on exactly the
  module paths it is given; as a context manager it removes them on exit.
\<close>

definition HookModel_enter :: "path list \<Rightarrow> ('i, 'x) state \<Rightarrow> ('i, 'x) state" where
  "HookModel_enter ps s =
     fold (\<lambda>p s'. log (EvHookInstall p)
        (upd_local (\<lambda>m. m\<lparr>hooks := add_mset (InputHook p) (add_mset (OutputHook p) (hooks m))\<rparr>) s')) ps s"

definition HookModel_exit :: "path list \<Rightarrow> ('i, 'x) state \<Rightarrow> ('i, 'x) state" where
  "HookModel_exit ps s =
     fold (\<lambda>p s'. log (EvHookRemove p)
        (upd_local (\<lambda>m. m\<lparr>hooks := hooks m - {#InputHook p, OutputHook p#}\<rparr>) s')) ps s"

text \<open>
  Modelled from the spec: \<^verbatim>\<open>_register_increment_hook\<close> is abstract in the source. The
  spec says that the registered callback fires once per forward pass; the callback the
  source registers is \<^verbatim>\<open>graph.increment()\<close> for the graph of the run. The handle's
  \<^verbatim>\<open>remove\<close> takes that hook off the local model.
\<close>

definition register_increment_hook :: "gid \<Rightarrow> ('i, 'x) state \<Rightarrow> ('i, 'x) state" where
  "register_increment_hook g s =
     log (EvRegisterIncrement g) (upd_local (\<lambda>m. m\<lparr>hooks := add_mset (IncrementHook g) (hooks m)\<rparr>) s)"

definition remove_increment_hook :: "gid \<Rightarrow> ('i, 'x) state \<Rightarrow> ('i, 'x) state" where
  "remove_increment_hook g s =
     log (EvRemoveIncrement g) (upd_local (\<lambda>m. m\<lparr>hooks := hooks m - {#IncrementHook g#}\<rparr>) s)"

definition increment :: "graph \<Rightarrow> graph" where
  "increment gr = gr\<lparr>step_counter := step_counter gr + 1\<rparr>"

text \<open>
  One full forward pass of the local model: every increment hook registered on it fires
  once, so the counter of a graph advances by the number of hooks registered for it.
\<close>

definition registered :: "('i, 'x) state \<Rightarrow> gid \<Rightarrow> nat" where
  "registered s g = (case local_model s of None \<Rightarrow> 0 | Some m \<Rightarrow> count (hooks m) (IncrementHook g))"

definition forward_pass :: "('i, 'x) state \<Rightarrow> ('i, 'x) state" where
  "forward_pass s =
     log EvForward (s\<lparr>graphs := (\<lambda>g. (increment ^^ registered s g) (graphs s g))\<rparr>)"

definition run_fn ::
  "('i \<Rightarrow> 'x list \<Rightarrow> (string \<times> 'x) list \<Rightarrow> 'o outcome) \<Rightarrow> 'i \<Rightarrow> 'x list \<Rightarrow> (string \<times> 'x) list
     \<Rightarrow> (('i, 'x) state, 'o) run" where
  "run_fn fn inputs as kws s =
     (case fn inputs as kws of
        Outcome n r \<Rightarrow>
          (r, (forward_pass ^^ n)
                (log (EvFn inputs as kws (inference_mode s) (map_option training (local_model s))) s)))"

section \<open>Module paths of a graph\<close>

text \<open>Python's \<^verbatim>\<open>name.split(".")\<close> and \<^verbatim>\<open>".".join(parts)\<close>.\<close>

fun split_dot :: "string \<Rightarrow> string list" where
  "split_dot [] = [[]]"
| "split_dot (c # cs) =
     (if c = CHR ''.'' then [] # split_dot cs
      else (case split_dot cs of [] \<Rightarrow> [[c]] | w # ws \<Rightarrow> (c # w) # ws))"

fun join_dot :: "string list \<Rightarrow> string" where
  "join_dot [] = []"
| "join_dot [w] = w"
| "join_dot (w # ws) = w @ CHR ''.'' # join_dot ws"

text \<open>
  \<^verbatim>\<open>".".join(name.split(".")[:-2])\<close>; the slice \<^verbatim>\<open>[:-2]\<close> of a list shorter than two
  is empty.
\<close>

definition module_of :: "string \<Rightarrow> path" where
  "module_of name = join_dot (take (length (split_dot name) - 2) (split_dot name))"

text \<open>
  \<^verbatim>\<open>list(set([... for name in graph.argument_node_names.keys()]))\<close>: the order of a Python
  set is not fixed, so only the elements of this list mean anything.
\<close>

definition hooked_modules :: "graph \<Rightarrow> path list" where
  "hooked_modules gr = remdups (map (\<lambda>name. module_of name) (map fst (argument_node_names gr)))"

section \<open>AbstractModel\<close>

definition alteration :: "('i, 'x) state \<Rightarrow> patcher" where
  "alteration s =
     (case REPOID_TO_ALTERATION s (repoid_path_clsname s) of
        Some ps \<Rightarrow> Patcher ps | None \<Rightarrow> Patcher [])"

definition alteration_patcher :: "('i, 'x) state \<Rightarrow> patcher" where
  "alteration_patcher s = (if alter s then alteration s else Patcher [])"

definition enter_patcher :: "patcher \<Rightarrow> ('i, 'x) state \<Rightarrow> ('i, 'x) state" where
  "enter_patcher pt s = s\<lparr>bindings := snd (Patcher_enter (pt, bindings s))\<rparr>"

definition exit_patcher :: "patcher \<Rightarrow> ('i, 'x) state \<Rightarrow> ('i, 'x) state" where
  "exit_patcher pt s = s\<lparr>bindings := snd (Patcher_exit (pt, bindings s))\<rparr>"

text \<open>
  Lines 135 to 141: \<^verbatim>\<open>_load_local\<close> and the loop that freezes every parameter. The flag
  \<open>dispatched\<close> is not assigned here, nor anywhere else in \<^verbatim>\<open>__call__\<close>.
\<close>

definition freeze :: "local_model \<Rightarrow> local_model" where
  "freeze m = m\<lparr>params := map (\<lambda>(n, r). (n, False)) (params m)\<rparr>"

definition load_and_freeze :: "'x adapter \<Rightarrow> (('i, 'x) state, unit) run" where
  "load_and_freeze ad s =
     (case load_local ad (repoid_path_clsname s) (args s) (kwargs s) (bindings s) of
        Inl e \<Rightarrow> (Inl e, log EvLoadLocal s)
      | Inr m \<Rightarrow> (Inr (), log EvFreeze ((log EvLoadLocal s)\<lparr>local_model := Some (freeze m)\<rparr>)))"

definition graph_compile :: "'x adapter \<Rightarrow> gid \<Rightarrow> (('i, 'x) state, unit) run" where
  "graph_compile ad g s =
     (case compile ad (graphs s g) (local_model s) of
        Inl e \<Rightarrow> (Inl e, log (EvCompile g) s)
      | Inr gr \<Rightarrow> (Inr (), log (EvCompile g) (s\<lparr>graphs := (graphs s)(g := gr)\<rparr>)))"

text \<open>
  Line 162: \<^verbatim>\<open>self.local_model.eval() if inference else self.local_model.train()\<close>. This
  is the first place where the source itself dereferences \<^verbatim>\<open>local_model\<close>; on
  \<^verbatim>\<open>None\<close> Python raises.
\<close>

definition set_mode :: "bool \<Rightarrow> (('i, 'x) state, unit) run" where
  "set_mode inference s =
     (case local_model s of
        None \<Rightarrow> (Inl AttributeError, s)
      | Some m \<Rightarrow>
          (Inr (), log (if inference then EvEval else EvTrain)
                     (s\<lparr>local_model := Some (m\<lparr>training := \<not> inference\<rparr>)\<rparr>)))"

text \<open>
  \<^verbatim>\<open>torch.inference_mode(mode=inference)\<close> sets the flag on entry and puts the previous
  value back on exit.
\<close>

definition inference_enter :: "bool \<Rightarrow> ('i, 'x) state \<Rightarrow> ('i, 'x) state" where
  "inference_enter mode s = log (EvInferenceEnter mode) (s\<lparr>inference_mode := mode\<rparr>)"

definition inference_exit :: "bool \<Rightarrow> ('i, 'x) state \<Rightarrow> ('i, 'x) state" where
  "inference_exit prev s = log EvInferenceExit (s\<lparr>inference_mode := prev\<rparr>)"

definition with_inference_mode :: "bool \<Rightarrow> (('i, 'x) state, 'r) run \<Rightarrow> (('i, 'x) state, 'r) run" where
  "with_inference_mode mode body s =
     with_cm (inference_enter mode) (inference_exit (inference_mode s)) body s"

text \<open>
  Lines 144 to 179, the body of \<^verbatim>\<open>with Editor(self, edits)\<close>. The call
  \<^verbatim>\<open>increment_hook.remove()\<close> of line 177 is an ordinary statement after the inner
  \<^verbatim>\<open>with\<close> blocks: it is reached only when they end without an exception.
\<close>

definition run_body ::
  "'x adapter \<Rightarrow> ('i \<Rightarrow> 'x list \<Rightarrow> (string \<times> 'x) list \<Rightarrow> 'o outcome) \<Rightarrow> 'i \<Rightarrow> gid \<Rightarrow> 'x list
     \<Rightarrow> (string \<times> 'x) list \<Rightarrow> bool \<Rightarrow> (('i, 'x) state, 'o) run" where
  "run_body ad fn inputs g as kws inference =
     then_do (graph_compile ad g) (\<lambda>_ s1.
       let s2 = register_increment_hook g s1;
           modules = hooked_modules (graphs s2 g)
       in then_do (set_mode inference) (\<lambda>_.
            then_do
              (with_inference_mode inference
                 (with_cm (HookModel_enter modules) (HookModel_exit modules)
                    (run_fn fn inputs as kws)))
              (\<lambda>output s4. (Inr output, remove_increment_hook g s4))) s2)"

text \<open>
  Lines 132 to 141: when the flag \<open>dispatched\<close> is not set, the local model is loaded
  inside the alteration patcher and frozen.
\<close>

definition dispatch :: "'x adapter \<Rightarrow> (('i, 'x) state, unit) run" where
  "dispatch ad s =
     (if \<not> dispatched s
      then with_cm (enter_patcher (alteration_patcher s)) (exit_patcher (alteration_patcher s))
             (load_and_freeze ad) s
      else (Inr (), s))"

text \<open>\<^verbatim>\<open>AbstractModel.__call__\<close>, lines 107 to 181.\<close>

definition AbstractModel_call ::
  "'x adapter \<Rightarrow> ('i \<Rightarrow> 'x list \<Rightarrow> (string \<times> 'x) list \<Rightarrow> 'o outcome) \<Rightarrow> 'i \<Rightarrow> gid \<Rightarrow> 'x list
     \<Rightarrow> edit list option \<Rightarrow> bool \<Rightarrow> (string \<times> 'x) list \<Rightarrow> (('i, 'x) state, 'o) run" where
  "AbstractModel_call ad fn inputs g as edits_arg inference kws s =
     (let es = (case edits_arg of None \<Rightarrow> edits s | Some es' \<Rightarrow> es')
      in then_do (dispatch ad)
           (\<lambda>_. with_cm_try (Editor_enter es) (Editor_exit es)
                  (run_body ad fn inputs g as kws inference)) s)"

text \<open>
  Lines 66 to 76 of \<^verbatim>\<open>__init__\<close>: the meta model is a deep copy of the given module moved to
  the meta device, or what \<^verbatim>\<open>_load_meta\<close> returns. The copy leaves the given module as
  it is.
\<close>

definition build_meta :: "'x adapter \<Rightarrow> (('i, 'x) state, unit) run" where
  "build_meta ad s =
     (if custom_model s
      then (case local_model s of
              None \<Rightarrow> (Inl AttributeError, s)
            | Some m \<Rightarrow> (Inr (), s\<lparr>meta_model := \<lparr>meta_applied = applied m\<rparr>\<rparr>))
      else (case load_meta ad (repoid_path_clsname s) (args s) (kwargs s) (bindings s) of
              Inl e \<Rightarrow> (Inl e, log EvLoadMeta s)
            | Inr mm \<Rightarrow> (Inr (), (log EvLoadMeta s)\<lparr>meta_model := mm\<rparr>)))"

definition call_run_meta :: "'x adapter \<Rightarrow> (('i, 'x) state, unit) run" where
  "call_run_meta ad s =
     (case run_meta ad (bindings s) of
        (None, b) \<Rightarrow> (Inr (), (log EvRunMeta s)\<lparr>bindings := b\<rparr>)
      | (Some e, b) \<Rightarrow> (Inl e, (log EvRunMeta s)\<lparr>bindings := b\<rparr>))"

text \<open>
  \<^verbatim>\<open>AbstractModel.__init__\<close>, lines 33 to 91, run in the process state \<open>w\<close>. Wrapping the
  children of the meta model and setting their \<^verbatim>\<open>module_path\<close> (lines 79 to 86) changes
  nothing that is modelled here.
\<close>

definition AbstractModel_init ::
  "'x adapter \<Rightarrow> model_source \<Rightarrow> 'x list \<Rightarrow> bool \<Rightarrow> string option \<Rightarrow> (string \<times> 'x) list
     \<Rightarrow> (('i, 'x) state, unit) run" where
  "AbstractModel_init ad src as alter_arg tok kws w =
     (let s0 = w\<lparr>repoid_path_clsname := (case src of Repo r \<Rightarrow> r | Module c m \<Rightarrow> c),
                 args := as, kwargs := kws, alter := alter_arg,
                 dispatched := (case src of Repo r \<Rightarrow> False | Module c m \<Rightarrow> True),
                 custom_model := (case src of Repo r \<Rightarrow> False | Module c m \<Rightarrow> True),
                 local_model := (case src of Repo r \<Rightarrow> None | Module c m \<Rightarrow> Some m),
                 tokenizer := tok, edits := []\<rparr>
      in then_do
           (with_cm (enter_patcher (alteration_patcher s0)) (exit_patcher (alteration_patcher s0))
              (build_meta ad))
           (\<lambda>_. call_run_meta ad) s0)"

text \<open>
  \<^verbatim>\<open>AbstractModel.modulize\<close>, lines 192 to 225. Each of the two \<^verbatim>\<open>edit\<close> calls on the
  meta model can fail, and \<^verbatim>\<open>graph.nodes[node_name]\<close> is a lookup by name, which raises
  on a name the graph does not have; by then the wrapper edit has been carried out on the
  meta model. The edits are appended only when all of this has gone through.
\<close>

definition meta_edit :: "edit \<Rightarrow> (('i, 'x) state, unit) run" where
  "meta_edit e s =
     (case edit_apply e (meta_applied (meta_model s)) of
        Inl err \<Rightarrow> (Inl err, s)
      | Inr M \<Rightarrow> (Inr (), s\<lparr>meta_model := (meta_model s)\<lparr>meta_applied := M\<rparr>\<rparr>))"

definition modulize ::
  "'x adapter \<Rightarrow> module_wrapper \<Rightarrow> string \<Rightarrow> string \<Rightarrow> (('i, 'x) state, unit) run" where
  "modulize ad md nname mname =
     (let wme = WrapperModuleEdit (module_path md) mname
                  (Some (module_path md @ ''.'' @ mname));
          g = module_graph md
      in then_do (meta_edit wme) (\<lambda>u s1.
           case map_of (nodes (graphs s1 g)) nname of
             None \<Rightarrow> (Inl KeyError, s1)
           | Some n \<Rightarrow>
               (let s2 = s1\<lparr>graphs := (graphs s1)(g := proxy_call ad (graphs s1 g) mname n)\<rparr>;
                    ge = GraphEdit (module_path md) g
                in then_do (meta_edit ge)
                     (\<lambda>u s3. (Inr (), s3\<lparr>edits := edits s3 @ [wme, ge]\<rparr>)) s2)))"

text \<open>
  What is done with a model after it has been built: runs through \<^verbatim>\<open>__call__\<close> and calls
  of \<^verbatim>\<open>modulize\<close>, in any number and order, each on the state that the one before has
  left, whether it returned or raised.
\<close>

datatype ('i, 'x, 'o) use =
    Run "'i \<Rightarrow> 'x list \<Rightarrow> (string \<times> 'x) list \<Rightarrow> 'o outcome" 'i gid "'x list" "edit list option" bool
      "(string \<times> 'x) list"
  | Modulize module_wrapper string string


section \<open>Mamba\<close>

text \<open>
  \<^verbatim>\<open>Mamba._scan\<close>, lines 41 to 64. The argument \<open>meta_forward\<close> is the call of the meta
  model on the prepared inputs: whether it raises depends on the bindings in place when it
  runs.
\<close>

definition Mamba_scan :: "(bindings \<Rightarrow> error option) \<Rightarrow> bindings \<Rightarrow> error option \<times> bindings" where
  "Mamba_scan meta_forward b =
     (let pb0 = Patcher_enter (Patcher [], b);
          pb1 = Patcher_add (Patch (snd pb0) ''mamba_ssm.modules.mamba_simple'' ''blah'' ''rms_norm_fn'') pb0;
          pb2 = Patcher_add (Patch (snd pb1) ''mamba_ssm.models.mixer_seq_simple'' ''blah1'' ''rms_norm_fn'') pb1;
          pb3 = Patcher_add (Patch (snd pb2) ''causal_conv1d_cuda'' ''blah2'' ''causal_conv1d_fwd'') pb2;
          pb4 = Patcher_add (Patch (snd pb3) ''selective_scan_cuda'' ''blah3'' ''fwd'') pb3;
          r = meta_forward (snd pb4)
      in (r, snd (Patcher_exit pb4)))"

text \<open>
  Modelled from the spec: \<^verbatim>\<open>LanguageModel\<close>, the base class of \<^verbatim>\<open>Mamba\<close>, is not among
  the source files. The spec's adapter contract has \<^verbatim>\<open>run_meta(dummy_input)\<close> populate the
  shapes by a meta run; for \<^verbatim>\<open>Mamba\<close> that meta run is \<^verbatim>\<open>_scan\<close>.
\<close>

definition Mamba_adapter :: "(bindings \<Rightarrow> error option) \<Rightarrow> 'x adapter \<Rightarrow> 'x adapter" where
  "Mamba_adapter meta_forward ad = ad\<lparr>run_meta := Mamba_scan meta_forward\<rparr>"

text \<open>
  \<^verbatim>\<open>MambaInterp.__init__\<close>, lines 257 to 272: the patcher is entered by a direct call of
  \<^verbatim>\<open>__enter__\<close>, and the method ends with the call of the base constructor.
\<close>

definition MambaInterp_init ::
  "(bindings \<Rightarrow> error option) \<Rightarrow> 'x adapter \<Rightarrow> model_source \<Rightarrow> 'x list \<Rightarrow> bool \<Rightarrow> string option
     \<Rightarrow> (string \<times> 'x) list \<Rightarrow> (('i, 'x) state, unit) run" where
  "MambaInterp_init meta_forward ad src as alter_arg tok kws w =
     (let pb0 = (Patcher [], bindings w);
          pb1 = Patcher_add
                  (Patch (snd pb0) ''mamba_ssm.models.mixer_seq_simple'' ''MambaModuleInterp'' ''Mamba'')
                  pb0;
          pb2 = Patcher_enter pb1
      in AbstractModel_init (Mamba_adapter meta_forward ad) src as alter_arg tok kws
           (w\<lparr>bindings := snd pb2\<rparr>))"

section \<open>The state-space recurrence\<close>

text \<open>
  \<^verbatim>\<open>SSM\<close> and its four sub-modules, lines 81 to 169. A tensor of rank \<open>k\<close> is a function of
  \<open>k\<close> indices; the sizes that the code reads from the shapes (\<open>dstate = A.shape[1]\<close>,
  \<open>L = x.shape[2]\<close>) are arguments, and the shapes of the arguments are taken to fit
  together. The arithmetic of the tensor library on single elements is a parameter, so
  nothing is assumed about floating point: sum and product, zero, the reduction of an
  \<^verbatim>\<open>einsum\<close> over a contracted index, \<^verbatim>\<open>exp\<close>, \<^verbatim>\<open>silu\<close>, the conversions
  \<^verbatim>\<open>.float()\<close> and \<^verbatim>\<open>.to(dtype_in)\<close>, the pairing of \<^verbatim>\<open>view_as_complex\<close> and
  \<^verbatim>\<open>y.real * 2\<close>.
\<close>

type_synonym 'a t1 = "nat \<Rightarrow> 'a"
type_synonym 'a t2 = "nat \<Rightarrow> nat \<Rightarrow> 'a"
type_synonym 'a t3 = "nat \<Rightarrow> nat \<Rightarrow> nat \<Rightarrow> 'a"
type_synonym 'a t4 = "nat \<Rightarrow> nat \<Rightarrow> nat \<Rightarrow> nat \<Rightarrow> 'a"

record 'a scalar_ops =
  s_add :: "'a \<Rightarrow> 'a \<Rightarrow> 'a"
  s_mul :: "'a \<Rightarrow> 'a \<Rightarrow> 'a"
  s_zero :: 'a
  s_sum :: "'a list \<Rightarrow> 'a"
  s_exp :: "'a \<Rightarrow> 'a"
  s_silu :: "'a \<Rightarrow> 'a"
  s_float :: "'a \<Rightarrow> 'a"
  s_cast :: "'a \<Rightarrow> 'a"
  s_complex :: "'a \<Rightarrow> 'a \<Rightarrow> 'a"
  s_real2 :: "'a \<Rightarrow> 'a"

text \<open>
  \<^verbatim>\<open>einsum('bdl,dn->bdln')\<close> and \<^verbatim>\<open>einsum('bdl,bnl->bdln')\<close> contract no index: every
  element of the result is one product. \<^verbatim>\<open>einsum('bdn,bn->bd')\<close> reduces over \<open>n\<close>.
  \<^verbatim>\<open>y.is_complex()\<close> holds exactly when \<^verbatim>\<open>A\<close> is complex, since then \<^verbatim>\<open>h\<close> and
  \<^verbatim>\<open>C\<close> are complex, and otherwise everything has been converted to float.
\<close>

definition DiscA_forward :: "'a scalar_ops \<Rightarrow> 'a t3 \<Rightarrow> 'a t2 \<Rightarrow> 'a t4" where
  "DiscA_forward ops delta A = (\<lambda>b d l n. s_exp ops (s_mul ops (delta b d l) (A d n)))"

definition DiscB_forward :: "'a scalar_ops \<Rightarrow> 'a t3 \<Rightarrow> 'a t3 \<Rightarrow> 'a t4" where
  "DiscB_forward ops delta B = (\<lambda>b d l n. s_mul ops (delta b d l) (B b n l))"

definition Hx_forward :: "'a scalar_ops \<Rightarrow> 'a t3 \<Rightarrow> 'a t3 \<Rightarrow> 'a t2 \<Rightarrow> 'a t3 \<Rightarrow> 'a t3" where
  "Hx_forward ops deltaA deltaB x h =
     (\<lambda>b d n. s_add ops (s_mul ops (deltaA b d n) (h b d n)) (s_mul ops (deltaB b d n) (x b d)))"

definition Yh_forward :: "'a scalar_ops \<Rightarrow> bool \<Rightarrow> nat \<Rightarrow> 'a t3 \<Rightarrow> 'a t2 \<Rightarrow> 'a t2" where
  "Yh_forward ops is_complex dstate h C =
     (\<lambda>b d. let y = s_sum ops (map (\<lambda>n. s_mul ops (h b d n) (C b n)) [0..<dstate])
             in if is_complex then s_real2 ops y else y)"

text \<open>
  The value returned: \<^verbatim>\<open>out\<close>, or the pair \<^verbatim>\<open>(out, last_state)\<close>. The loop over
  \<^verbatim>\<open>range(x.shape[2])\<close> carries \<^verbatim>\<open>h\<close>, the list \<^verbatim>\<open>ys\<close> and \<^verbatim>\<open>last_state\<close>.
\<close>

datatype 'a ssm_result = Out "'a t3" | OutAndState "'a t3" "'a t3 option"

fun ssm_loop ::
  "'a scalar_ops \<Rightarrow> bool \<Rightarrow> nat \<Rightarrow> nat \<Rightarrow> 'a t4 \<Rightarrow> 'a t4 \<Rightarrow> 'a t3 \<Rightarrow> 'a t3 \<Rightarrow> nat list
     \<Rightarrow> 'a t3 \<times> 'a t2 list \<times> 'a t3 option \<Rightarrow> 'a t3 \<times> 'a t2 list \<times> 'a t3 option" where
  "ssm_loop ops is_complex dstate L deltaA deltaB x C [] st = st"
| "ssm_loop ops is_complex dstate L deltaA deltaB x C (token_idx # rest) (h, ys, last_state) =
     (let h' = Hx_forward ops (\<lambda>b d n. deltaA b d token_idx n) (\<lambda>b d n. deltaB b d token_idx n)
                 (\<lambda>b d. x b d token_idx) h;
          y = Yh_forward ops is_complex dstate h' (\<lambda>b n. C b n token_idx);
          last_state' = (if int token_idx = int L - 1 then Some h' else last_state)
      in ssm_loop ops is_complex dstate L deltaA deltaB x C rest (h', ys @ [y], last_state'))"

text \<open>\<^verbatim>\<open>torch.stack(ys, dim=2)\<close>, which raises on an empty list.\<close>

definition stack :: "'a t2 list \<Rightarrow> error + 'a t3" where
  "stack ys = (if ys = [] then Inl RuntimeError else Inr (\<lambda>b d l. (ys ! l) b d))"

definition SSM_forward ::
  "'a scalar_ops \<Rightarrow> bool \<Rightarrow> nat \<Rightarrow> nat \<Rightarrow> 'a t3 \<Rightarrow> 'a t3 \<Rightarrow> 'a t2 \<Rightarrow> 'a t3 \<Rightarrow> 'a t3
     \<Rightarrow> 'a t1 option \<Rightarrow> 'a t3 option \<Rightarrow> bool \<Rightarrow> error + 'a ssm_result" where
  "SSM_forward ops A_is_complex dstate L x delta A B C D z return_last_state =
     (let x = (\<lambda>b d l. s_float ops (x b d l));
          delta = (\<lambda>b d l. s_float ops (delta b d l));
          B = (if A_is_complex
               then (\<lambda>b n l. s_complex ops (s_float ops (B b n (2 * l))) (s_float ops (B b n (2 * l + 1))))
               else (\<lambda>b n l. s_float ops (B b n l)));
          C = (if A_is_complex
               then (\<lambda>b n l. s_complex ops (s_float ops (C b n (2 * l))) (s_float ops (C b n (2 * l + 1))))
               else (\<lambda>b n l. s_float ops (C b n l)));
          deltaA = DiscA_forward ops delta A;
          deltaB = DiscB_forward ops delta B;
          last_state = None;
          h = (\<lambda>b d n. s_zero ops);
          ys = [];
          (h, ys, last_state) =
             ssm_loop ops A_is_complex dstate L deltaA deltaB x C [0..<L] (h, ys, last_state)
      in case stack ys of
           Inl e \<Rightarrow> Inl e
         | Inr y \<Rightarrow>
             (let out = (case D of None \<Rightarrow> y
                         | Some Dv \<Rightarrow> (\<lambda>b d l. s_add ops (y b d l) (s_mul ops (x b d l) (Dv d))));
                  out = (case z of None \<Rightarrow> out
                         | Some zv \<Rightarrow> (\<lambda>b d l. s_mul ops (out b d l) (s_silu ops (zv b d l))));
                  out = (\<lambda>b d l. s_cast ops (out b d l))
              in Inr (if \<not> return_last_state then Out out else OutAndState out last_state)))"

text \<open>
  The recurrence in the words of the claim: \<open>hidden t\<close> is the hidden state after \<open>t\<close>
  tokens, zero at the start, and \<open>emitted t\<close> is the output for the token with index
  \<open>t\<close>, read from the state that has taken that token in; \<open>discretized_A\<close> and
  \<open>discretized_B\<close> are \<^verbatim>\<open>deltaA\<close> and \<^verbatim>\<open>deltaB\<close>, and \<open>output_at\<close> adds the skip term,
  applies the gate and casts.
\<close>

primrec hidden :: "'a scalar_ops \<Rightarrow> 'a t4 \<Rightarrow> 'a t4 \<Rightarrow> 'a t3 \<Rightarrow> nat \<Rightarrow> 'a t3" where
  "hidden ops deltaA deltaB x 0 = (\<lambda>b d n. s_zero ops)"
| "hidden ops deltaA deltaB x (Suc t) =
     (\<lambda>b d n. s_add ops (s_mul ops (deltaA b d t n) (hidden ops deltaA deltaB x t b d n))
                         (s_mul ops (deltaB b d t n) (x b d t)))"

definition emitted :: "'a scalar_ops \<Rightarrow> bool \<Rightarrow> nat \<Rightarrow> 'a t4 \<Rightarrow> 'a t4 \<Rightarrow> 'a t3 \<Rightarrow> 'a t3 \<Rightarrow> nat \<Rightarrow> 'a t2" where
  "emitted ops is_complex dstate deltaA deltaB x C t =
     (\<lambda>b d. let y = s_sum ops (map (\<lambda>n. s_mul ops (hidden ops deltaA deltaB x (Suc t) b d n) (C b n t)) [0..<dstate])
             in if is_complex then s_real2 ops y else y)"

definition discretized_A :: "'a scalar_ops \<Rightarrow> 'a t3 \<Rightarrow> 'a t2 \<Rightarrow> 'a t4" where
  "discretized_A ops delta A = (\<lambda>b d l n. s_exp ops (s_mul ops (delta b d l) (A d n)))"

definition discretized_B :: "'a scalar_ops \<Rightarrow> 'a t3 \<Rightarrow> 'a t3 \<Rightarrow> 'a t4" where
  "discretized_B ops delta B = (\<lambda>b d l n. s_mul ops (delta b d l) (B b n l))"

definition as_float :: "'a scalar_ops \<Rightarrow> 'a t3 \<Rightarrow> 'a t3" where
  "as_float ops v = (\<lambda>b d l. s_float ops (v b d l))"

definition as_complex :: "'a scalar_ops \<Rightarrow> 'a t3 \<Rightarrow> 'a t3" where
  "as_complex ops v =
     (\<lambda>b n l. s_complex ops (s_float ops (v b n (2 * l))) (s_float ops (v b n (2 * l + 1))))"

definition output_at ::
  "'a scalar_ops \<Rightarrow> 'a t3 \<Rightarrow> 'a t1 option \<Rightarrow> 'a t3 option \<Rightarrow> 'a t2 \<Rightarrow> nat \<Rightarrow> nat \<Rightarrow> nat \<Rightarrow> 'a" where
  "output_at ops x D z y b d l =
     (let skipped = (case D of None \<Rightarrow> y b d | Some Dv \<Rightarrow> s_add ops (y b d) (s_mul ops (x b d l) (Dv d)));
          gated = (case z of None \<Rightarrow> skipped | Some zv \<Rightarrow> s_mul ops skipped (s_silu ops (zv b d l)))
      in s_cast ops gated)"

text \<open>Real arithmetic for the scalars, and a small input: one state dimension, two tokens.\<close>

definition real_ops :: "real scalar_ops" where
  "real_ops =
     \<lparr>s_add = (+), s_mul = (*), s_zero = 0, s_sum = sum_list, s_exp = exp,
      s_silu = (\<lambda>v. v / (1 + exp (- v))), s_float = (\<lambda>v. v), s_cast = (\<lambda>v. v),
      s_complex = (\<lambda>re im. re), s_real2 = (\<lambda>v. 2 * v)\<rparr>"

definition ssm_x :: "real t3" where "ssm_x = (\<lambda>b d l. 3)"
definition ssm_delta :: "real t3" where "ssm_delta = (\<lambda>b d l. 1)"
definition ssm_A :: "real t2" where "ssm_A = (\<lambda>d n. 0)"
definition ssm_B :: "real t3" where "ssm_B = (\<lambda>b n l. 2)"
definition ssm_C :: "real t3" where "ssm_C = (\<lambda>b n l. 5)"
definition ssm_D :: "real t1" where "ssm_D = (\<lambda>d. 7)"

section \<open>Observing a run\<close>

text \<open>The hooks that \<^verbatim>\<open>HookModel\<close> holds for a list of paths.\<close>

definition io_hooks :: "path list \<Rightarrow> hook multiset" where
  "io_hooks ps = mset (map InputHook ps) + mset (map OutputHook ps)"

text \<open>The events that a step from \<open>s\<close> to \<open>s'\<close> has added to the trace.\<close>

definition new_events :: "('i, 'x) state \<Rightarrow> ('i, 'x) state \<Rightarrow> ('i, 'x) event list" where
  "new_events s s' = drop (length (trace s)) (trace s')"

text \<open>The paths on which a trace installs hooks, in order.\<close>

fun hook_installs :: "('i, 'x) event list \<Rightarrow> path list" where
  "hook_installs [] = []"
| "hook_installs (EvHookInstall p # evs) = p # hook_installs evs"
| "hook_installs (e # evs) = hook_installs evs"

text \<open>Real computation on the local model: a hook is installed, the user function is called, a forward pass runs.\<close>

fun is_compute :: "('i, 'x) event \<Rightarrow> bool" where
  "is_compute (EvHookInstall p) = True"
| "is_compute (EvFn i as kws mode tr) = True"
| "is_compute EvForward = True"
| "is_compute e = False"

section \<open>A two-layer toy model\<close>

text \<open>
  The scenario of the spec: a model with two layers, a graph whose argument nodes belong to
  the outputs and inputs of these layers, and an adapter whose loader returns the model
  with trainable parameters.
\<close>

definition toy_graph :: graph where
  "toy_graph =
     \<lparr>nodes = [(''mul_0'', \<lparr>node_name = ''mul_0'', node_target = ''mul'', node_args = []\<rparr>)],
      argument_node_names =
        [(''layers.0.output.0'', [''mul_0'']), (''layers.0.input.0'', []),
         (''layers.1.output.0'', [])],
      step_counter = 0\<rparr>"

definition toy_local :: local_model where
  "toy_local =
     \<lparr>params = [(''layers.0.weight'', True), (''layers.0.bias'', False), (''layers.1.weight'', True)],
      training = True, applied = {#}, hooks = {#}\<rparr>"

definition toy_adapter :: "nat adapter" where
  "toy_adapter =
     \<lparr>load_meta = (\<lambda>r as kws b. Inr \<lparr>meta_applied = {#}\<rparr>),
      load_local = (\<lambda>r as kws b. Inr toy_local),
      run_meta = (\<lambda>b. (None, b)),
      compile = (\<lambda>gr m. Inr gr),
      proxy_call = (\<lambda>gr mname n.
         gr\<lparr>nodes := nodes gr @
            [(mname, \<lparr>node_name = mname, node_target = mname, node_args = [node_name n]\<rparr>)]\<rparr>)\<rparr>"

definition toy_world :: "(nat, nat) state" where
  "toy_world =
     \<lparr>repoid_path_clsname = [], args = [], kwargs = [], alter = False, dispatched = False,
      custom_model = False, local_model = None, tokenizer = None, edits = [],
      meta_model = \<lparr>meta_applied = {#}\<rparr>, bindings = (\<lambda>k. ''original''),
      inference_mode = False, graphs = (\<lambda>g. toy_graph), REPOID_TO_ALTERATION = (\<lambda>r. None),
      trace = []\<rparr>"

text \<open>The instance built from a repository id, and the instance built from the module itself.\<close>

definition toy_repo :: "(nat, nat) state" where
  "toy_repo = toy_world\<lparr>repoid_path_clsname := ''toy/two-layer'', alter := True\<rparr>"

definition toy_custom :: "(nat, nat) state" where
  "toy_custom =
     toy_world\<lparr>repoid_path_clsname := ''Toy'', dispatched := True, custom_model := True,
       local_model := Some toy_local\<rparr>"

text \<open>A user function that runs two forward passes and returns its input, and one that fails in its first pass.\<close>

definition toy_fn :: "nat \<Rightarrow> nat list \<Rightarrow> (string \<times> nat) list \<Rightarrow> nat outcome" where
  "toy_fn inputs as kws = Outcome 2 (Inr inputs)"

definition failing_fn :: "nat \<Rightarrow> nat list \<Rightarrow> (string \<times> nat) list \<Rightarrow> nat outcome" where
  "failing_fn inputs as kws = Outcome 0 (Inl NodeEvaluationError)"



text \<open>A meta forward that only runs when the selective-scan kernel has been replaced.\<close>

definition toy_meta_forward :: "bindings \<Rightarrow> error option" where
  "toy_meta_forward b =
     (if b (''selective_scan_cuda'', ''fwd'') = ''blah3'' then None else Some TracingError)"

text \<open>An adapter whose compiler finds a module path missing from the local model.\<close>

definition stale_graph_adapter :: "nat adapter" where
  "stale_graph_adapter = toy_adapter\<lparr>compile := (\<lambda>gr m. Inl UnresolvedDependencyError)\<rparr>"

section \<open>What each step does to the state\<close>

lemma Editor_enter_eq:
  assumes "editor_ok es (local_model s)"
  shows "Editor_enter es s =
     (Inr (), s\<lparr>local_model := map_option (\<lambda>m. m\<lparr>applied := applied m + mset es\<rparr>) (local_model s),
               trace := trace s @ map EvEdit es\<rparr>)"
  using assms
proof (induction es arbitrary: s)
  case Nil
  show ?case by (cases "local_model s") simp_all
next
  case (Cons e es)
  show ?case
  proof (cases "local_model s")
    case None
    let ?s1 = "log (EvEdit e) s"
    have a: "apply_edit e s = (Inr (), ?s1)"
      by (simp add: apply_edit_def None)
    have ok: "editor_ok es (local_model ?s1)"
      by (simp add: editor_ok_def log_def None)
    have "Editor_enter (e # es) s = Editor_enter es ?s1"
      by (simp add: then_do_def a)
    also have "\<dots> = (Inr (), ?s1\<lparr>local_model := map_option (\<lambda>m. m\<lparr>applied := applied m + mset es\<rparr>) (local_model ?s1),
               trace := trace ?s1 @ map EvEdit es\<rparr>)"
      by (rule Cons.IH [OF ok])
    finally show ?thesis
      by (simp add: log_def None)
  next
    case (Some m)
    let ?s1 = "log (EvEdit e) (s\<lparr>local_model := Some (m\<lparr>applied := add_mset e (applied m)\<rparr>)\<rparr>)"
    from Cons.prems Some have fresh: "e \<notin># applied m" and rest: "appliable es (add_mset e (applied m))"
      by (simp_all add: editor_ok_def)
    have a: "apply_edit e s = (Inr (), ?s1)"
      using fresh by (simp add: apply_edit_def Some edit_apply_def)
    have ok: "editor_ok es (local_model ?s1)"
      using rest by (simp add: editor_ok_def log_def)
    have "Editor_enter (e # es) s = Editor_enter es ?s1"
      by (simp add: then_do_def a)
    also have "\<dots> = (Inr (), ?s1\<lparr>local_model := map_option (\<lambda>m. m\<lparr>applied := applied m + mset es\<rparr>) (local_model ?s1),
               trace := trace ?s1 @ map EvEdit es\<rparr>)"
      by (rule Cons.IH [OF ok])
    finally show ?thesis
      by (simp add: log_def Some)
  qed
qed

lemma same_local_model: "local_model s = Some m \<Longrightarrow> s\<lparr>local_model := Some m\<rparr> = s"
  by (cases s) simp

lemma Editor_enter_fails:
  assumes "\<not> editor_ok es (local_model s)"
  shows "\<exists>k m. k < length es \<and> local_model s = Some m
           \<and> Editor_enter es s =
               (Inl AlreadyAppliedError,
                s\<lparr>local_model := Some (m\<lparr>applied := applied m + mset (take k es)\<rparr>),
                  trace := trace s @ map EvEdit (take (Suc k) es)\<rparr>)"
  using assms
proof (induction es arbitrary: s)
  case Nil
  then show ?case by (simp add: editor_ok_def split: option.splits)
next
  case (Cons e es)
  from Cons.prems obtain m where m: "local_model s = Some m"
    by (cases "local_model s") (simp_all add: editor_ok_def)
  show ?case
  proof (cases "e \<in># applied m")
    case True
    have "apply_edit e s = (Inl AlreadyAppliedError, log (EvEdit e) s)"
      using True by (simp add: apply_edit_def m edit_apply_def)
    then have "Editor_enter (e # es) s = (Inl AlreadyAppliedError, log (EvEdit e) s)"
      by (simp add: then_do_def)
    also have "log (EvEdit e) s =
        s\<lparr>local_model := Some (m\<lparr>applied := applied m + mset (take 0 (e # es))\<rparr>),
          trace := trace s @ map EvEdit (take (Suc 0) (e # es))\<rparr>"
      by (simp add: log_def same_local_model [OF m])
    finally show ?thesis
      using m by (intro exI [of _ 0] exI [of _ m]) simp
  next
    case False
    let ?m1 = "m\<lparr>applied := add_mset e (applied m)\<rparr>"
    let ?s1 = "log (EvEdit e) (s\<lparr>local_model := Some ?m1\<rparr>)"
    have a: "apply_edit e s = (Inr (), ?s1)"
      using False by (simp add: apply_edit_def m edit_apply_def)
    have nok: "\<not> editor_ok es (local_model ?s1)"
      using Cons.prems False by (simp add: editor_ok_def m log_def)
    from Cons.IH [OF nok] obtain k m' where k: "k < length es" "local_model ?s1 = Some m'"
      and r: "Editor_enter es ?s1 =
               (Inl AlreadyAppliedError,
                ?s1\<lparr>local_model := Some (m'\<lparr>applied := applied m' + mset (take k es)\<rparr>),
                  trace := trace ?s1 @ map EvEdit (take (Suc k) es)\<rparr>)"
      by blast
    from k(2) have m': "m' = ?m1" by (simp add: log_def)
    have "Editor_enter (e # es) s = Editor_enter es ?s1"
      by (simp add: then_do_def a)
    also note r
    finally have "Editor_enter (e # es) s =
        (Inl AlreadyAppliedError,
         s\<lparr>local_model := Some (m\<lparr>applied := applied m + mset (take (Suc k) (e # es))\<rparr>),
           trace := trace s @ map EvEdit (take (Suc (Suc k)) (e # es))\<rparr>)"
      by (simp add: m' log_def)
    with k(1) m show ?thesis
      by (intro exI [of _ "Suc k"] exI [of _ m]) simp
  qed
qed

lemma Editor_exit_eq:
  "Editor_exit es s =
     s\<lparr>local_model := map_option (\<lambda>m. m\<lparr>applied := applied m - mset es\<rparr>) (local_model s),
       trace := trace s @ map EvRestore es\<rparr>"
proof (induction es arbitrary: s)
  case Nil
  show ?case by (cases "local_model s") (simp_all add: Editor_exit_def)
next
  case (Cons e es)
  have "Editor_exit (e # es) s =
        Editor_exit es (log (EvRestore e) (upd_local (\<lambda>m. m\<lparr>applied := edit_restore e (applied m)\<rparr>) s))"
    by (simp add: Editor_exit_def)
  also have "\<dots> = s\<lparr>local_model := map_option (\<lambda>m. m\<lparr>applied := applied m - mset (e # es)\<rparr>) (local_model s),
       trace := trace s @ map EvRestore (e # es)\<rparr>"
    unfolding Cons.IH
    by (cases "local_model s") (simp_all add: log_def upd_local_def edit_restore_def)
  finally show ?case .
qed

lemma HookModel_enter_eq:
  "HookModel_enter ps s =
     s\<lparr>local_model := map_option (\<lambda>m. m\<lparr>hooks := hooks m + io_hooks ps\<rparr>) (local_model s),
       trace := trace s @ map EvHookInstall ps\<rparr>"
proof (induction ps arbitrary: s)
  case Nil
  show ?case by (cases "local_model s") (simp_all add: HookModel_enter_def io_hooks_def)
next
  case (Cons p ps)
  have "HookModel_enter (p # ps) s =
        HookModel_enter ps (log (EvHookInstall p)
          (upd_local (\<lambda>m. m\<lparr>hooks := add_mset (InputHook p) (add_mset (OutputHook p) (hooks m))\<rparr>) s))"
    by (simp add: HookModel_enter_def)
  also have "\<dots> = s\<lparr>local_model := map_option (\<lambda>m. m\<lparr>hooks := hooks m + io_hooks (p # ps)\<rparr>) (local_model s),
       trace := trace s @ map EvHookInstall (p # ps)\<rparr>"
    unfolding Cons.IH
    by (cases "local_model s") (simp_all add: log_def upd_local_def io_hooks_def)
  finally show ?case .
qed

lemma HookModel_exit_eq:
  "HookModel_exit ps s =
     s\<lparr>local_model := map_option (\<lambda>m. m\<lparr>hooks := hooks m - io_hooks ps\<rparr>) (local_model s),
       trace := trace s @ map EvHookRemove ps\<rparr>"
proof (induction ps arbitrary: s)
  case Nil
  show ?case by (cases "local_model s") (simp_all add: HookModel_exit_def io_hooks_def)
next
  case (Cons p ps)
  have "HookModel_exit (p # ps) s =
        HookModel_exit ps (log (EvHookRemove p)
          (upd_local (\<lambda>m. m\<lparr>hooks := hooks m - {#InputHook p, OutputHook p#}\<rparr>) s))"
    by (simp add: HookModel_exit_def)
  also have "\<dots> = s\<lparr>local_model := map_option (\<lambda>m. m\<lparr>hooks := hooks m - io_hooks (p # ps)\<rparr>) (local_model s),
       trace := trace s @ map EvHookRemove (p # ps)\<rparr>"
    unfolding Cons.IH
    by (cases "local_model s") (simp_all add: log_def upd_local_def io_hooks_def add_mset_commute)
  finally show ?case .
qed

lemma increment_funpow: "(increment ^^ k) gr = gr\<lparr>step_counter := step_counter gr + k\<rparr>"
  by (induction k) (simp_all add: increment_def)

lemma forward_passes_eq:
  "(forward_pass ^^ n) s =
     s\<lparr>graphs := (\<lambda>g. (graphs s g)\<lparr>step_counter := step_counter (graphs s g) + n * registered s g\<rparr>),
       trace := trace s @ replicate n EvForward\<rparr>"
proof (induction n)
  case 0
  show ?case by simp
next
  case (Suc n)
  have "(forward_pass ^^ Suc n) s = forward_pass ((forward_pass ^^ n) s)"
    by simp
  also have "\<dots> = s\<lparr>graphs := (\<lambda>g. (graphs s g)\<lparr>step_counter := step_counter (graphs s g) + Suc n * registered s g\<rparr>),
       trace := trace s @ replicate (Suc n) EvForward\<rparr>"
    unfolding Suc
    by (simp add: forward_pass_def log_def increment_funpow registered_def
        replicate_append_same algebra_simps)
  finally show ?case .
qed

lemma count_io_hooks [simp]: "count (io_hooks ps) (IncrementHook h) = 0"
  by (induction ps) (simp_all add: io_hooks_def)

lemma run_body_compile_fails:
  assumes "compile ad (graphs t g) (local_model t) = Inl e"
  shows "run_body ad fn inputs g as kws inference t = (Inl e, log (EvCompile g) t)"
  using assms by (simp add: run_body_def then_do_def graph_compile_def)

lemma run_body_no_local:
  assumes "compile ad (graphs t g) (local_model t) = Inr gr" and "local_model t = None"
  shows "run_body ad fn inputs g as kws inference t =
           (Inl AttributeError,
            t\<lparr>graphs := (graphs t)(g := gr), trace := trace t @ [EvCompile g, EvRegisterIncrement g]\<rparr>)"
  using assms
  by (simp add: run_body_def then_do_def graph_compile_def Let_def register_increment_hook_def
      set_mode_def log_def upd_local_def)

lemma run_body_fn:
  assumes "local_model t = Some m"
    and "compile ad (graphs t g) (Some m) = Inr gr"
    and "fn inputs as kws = Outcome n r"
  shows "run_body ad fn inputs g as kws inference t =
           (r, t\<lparr>local_model :=
                   Some (m\<lparr>hooks := (case r of Inl e \<Rightarrow> add_mset (IncrementHook g) (hooks m) | Inr out \<Rightarrow> hooks m),
                           training := \<not> inference\<rparr>),
                 graphs := (\<lambda>h. (((graphs t)(g := gr)) h)
                              \<lparr>step_counter := step_counter (((graphs t)(g := gr)) h)
                                     + n * count (add_mset (IncrementHook g) (hooks m)) (IncrementHook h)\<rparr>),
                 trace := trace t @ [EvCompile g, EvRegisterIncrement g,
                                     if inference then EvEval else EvTrain, EvInferenceEnter inference]
                            @ map EvHookInstall (hooked_modules gr)
                            @ [EvFn inputs as kws inference (Some (\<not> inference))]
                            @ replicate n EvForward @ map EvHookRemove (hooked_modules gr)
                            @ [EvInferenceExit]
                            @ (case r of Inl e \<Rightarrow> [] | Inr out \<Rightarrow> [EvRemoveIncrement g])\<rparr>)"
proof (cases r)
  case (Inl e)
  with assms show ?thesis
    by (simp add: run_body_def then_do_def graph_compile_def Let_def register_increment_hook_def
      set_mode_def log_def upd_local_def with_inference_mode_def with_cm_def inference_enter_def
      inference_exit_def run_fn_def HookModel_enter_eq HookModel_exit_eq forward_passes_eq
      registered_def remove_increment_hook_def fun_eq_iff)
next
  case (Inr out)
  with assms show ?thesis
    by (simp add: run_body_def then_do_def graph_compile_def Let_def register_increment_hook_def
      set_mode_def log_def upd_local_def with_inference_mode_def with_cm_def inference_enter_def
      inference_exit_def run_fn_def HookModel_enter_eq HookModel_exit_eq forward_passes_eq
      registered_def remove_increment_hook_def fun_eq_iff)
qed

lemma dispatch_dispatched: "dispatched s \<Longrightarrow> dispatch ad s = (Inr (), s)"
  by (simp add: dispatch_def)

lemma dispatch_load:
  assumes "\<not> dispatched s"
  shows "dispatch ad s =
    (let ps = patches (alteration_patcher s);
         b1 = fold patch_install ps (bindings s);
         b2 = fold patch_restore ps b1
     in case load_local ad (repoid_path_clsname s) (args s) (kwargs s) b1 of
          Inl e \<Rightarrow> (Inl e, s\<lparr>bindings := b2, trace := trace s @ [EvLoadLocal]\<rparr>)
        | Inr m \<Rightarrow> (Inr (), s\<lparr>local_model := Some (freeze m), bindings := b2,
                                trace := trace s @ [EvLoadLocal, EvFreeze]\<rparr>))"
  using assms
  by (simp add: dispatch_def with_cm_def load_and_freeze_def enter_patcher_def exit_patcher_def
      Patcher_enter_def Patcher_exit_def log_def Let_def split: sum.splits prod.splits)

lemma dispatch_fields:
  assumes "dispatch ad s = (r, t)"
  shows "dispatched t = dispatched s \<and> edits t = edits s \<and> graphs t = graphs s
         \<and> inference_mode t = inference_mode s \<and> meta_model t = meta_model s
         \<and> custom_model t = custom_model s"
proof (cases "dispatched s")
  case True
  with assms show ?thesis by (simp add: dispatch_dispatched)
next
  case False
  with assms show ?thesis
    by (auto simp: dispatch_load Let_def split: sum.splits)
qed

lemma dispatch_trace:
  assumes "dispatch ad s = (r, t)"
  shows "\<exists>L. trace t = trace s @ L \<and> set L \<subseteq> {EvLoadLocal, EvFreeze}"
proof (cases "dispatched s")
  case True
  with assms show ?thesis by (simp add: dispatch_dispatched)
next
  case False
  with assms show ?thesis
    by (auto simp: dispatch_load Let_def split: sum.splits)
qed

lemma restore_applied:
  "map_option (\<lambda>m. m\<lparr>applied := applied m - mset es\<rparr>)
     (map_option (\<lambda>m. m\<lparr>applied := applied m + mset es\<rparr>) lm) = lm"
  by (cases lm) simp_all

lemma call_unfold:
  assumes "dispatch ad s = (Inr (), t)"
    and "es = (case edits_arg of None \<Rightarrow> edits s | Some es' \<Rightarrow> es')"
  shows "AbstractModel_call ad fn inputs g as edits_arg inference kws s =
           with_cm_try (Editor_enter es) (Editor_exit es) (run_body ad fn inputs g as kws inference) t"
  by (simp add: AbstractModel_call_def then_do_def Let_def assms(1) assms(2) [symmetric])

lemma call_dispatch_fails:
  assumes "dispatch ad s = (Inl e, t)"
  shows "AbstractModel_call ad fn inputs g as edits_arg inference kws s = (Inl e, t)"
  using assms by (simp add: AbstractModel_call_def then_do_def)

lemma call_editor_fails:
  assumes "dispatch ad s = (Inr (), t)"
    and "es = (case edits_arg of None \<Rightarrow> edits s | Some es' \<Rightarrow> es')"
    and "\<not> editor_ok es (local_model t)"
  shows "\<exists>k m. k < length es \<and> local_model t = Some m
           \<and> AbstractModel_call ad fn inputs g as edits_arg inference kws s =
               (Inl AlreadyAppliedError,
                t\<lparr>local_model := Some (m\<lparr>applied := applied m + mset (take k es)\<rparr>),
                  trace := trace t @ map EvEdit (take (Suc k) es)\<rparr>)"
proof -
  from Editor_enter_fails [OF assms(3)] obtain k m where k: "k < length es" "local_model t = Some m"
    and r: "Editor_enter es t =
               (Inl AlreadyAppliedError,
                t\<lparr>local_model := Some (m\<lparr>applied := applied m + mset (take k es)\<rparr>),
                  trace := trace t @ map EvEdit (take (Suc k) es)\<rparr>)"
    by blast
  have "AbstractModel_call ad fn inputs g as edits_arg inference kws s =
               (Inl AlreadyAppliedError,
                t\<lparr>local_model := Some (m\<lparr>applied := applied m + mset (take k es)\<rparr>),
                  trace := trace t @ map EvEdit (take (Suc k) es)\<rparr>)"
    by (simp add: call_unfold [OF assms(1,2)] with_cm_try_def r)
  with k show ?thesis by blast
qed

lemma call_compile_fails:
  assumes "dispatch ad s = (Inr (), t)"
    and "es = (case edits_arg of None \<Rightarrow> edits s | Some es' \<Rightarrow> es')"
    and "editor_ok es (local_model t)"
    and "compile ad (graphs t g)
           (map_option (\<lambda>m. m\<lparr>applied := applied m + mset es\<rparr>) (local_model t)) = Inl e"
  shows "AbstractModel_call ad fn inputs g as edits_arg inference kws s =
           (Inl e, t\<lparr>trace := trace t @ map EvEdit es @ [EvCompile g] @ map EvRestore es\<rparr>)"
proof -
  let ?t = "t\<lparr>local_model := map_option (\<lambda>m. m\<lparr>applied := applied m + mset es\<rparr>) (local_model t),
               trace := trace t @ map EvEdit es\<rparr>"
  have en: "Editor_enter es t = (Inr (), ?t)"
    by (rule Editor_enter_eq [OF assms(3)])
  have rb: "run_body ad fn inputs g as kws inference ?t = (Inl e, log (EvCompile g) ?t)"
    by (rule run_body_compile_fails) (simp add: assms(4))
  show ?thesis
    by (simp add: call_unfold [OF assms(1,2)] with_cm_try_def en rb Editor_exit_eq log_def
        restore_applied)
qed

lemma call_no_local:
  assumes "dispatch ad s = (Inr (), t)"
    and "es = (case edits_arg of None \<Rightarrow> edits s | Some es' \<Rightarrow> es')"
    and "local_model t = None"
    and "compile ad (graphs t g) None = Inr gr"
  shows "AbstractModel_call ad fn inputs g as edits_arg inference kws s =
           (Inl AttributeError,
            t\<lparr>graphs := (graphs t)(g := gr),
              trace := trace t @ map EvEdit es @ [EvCompile g, EvRegisterIncrement g] @ map EvRestore es\<rparr>)"
proof -
  let ?t = "t\<lparr>trace := trace t @ map EvEdit es\<rparr>"
  have same: "t\<lparr>local_model := None\<rparr> = t"
    using assms(3) by (cases t) simp
  have ok: "editor_ok es (local_model t)"
    by (simp add: editor_ok_def assms(3))
  have "Editor_enter es t = (Inr (), t\<lparr>local_model := None, trace := trace t @ map EvEdit es\<rparr>)"
    using Editor_enter_eq [OF ok] by (simp add: assms(3))
  then have en: "Editor_enter es t = (Inr (), ?t)"
    by (simp add: same)
  have rb: "run_body ad fn inputs g as kws inference ?t
          = (Inl AttributeError,
             ?t\<lparr>graphs := (graphs ?t)(g := gr),
                trace := trace ?t @ [EvCompile g, EvRegisterIncrement g]\<rparr>)"
    by (rule run_body_no_local) (simp_all add: assms(3,4))
  have "AbstractModel_call ad fn inputs g as edits_arg inference kws s =
           (Inl AttributeError,
            t\<lparr>local_model := None, graphs := (graphs t)(g := gr),
              trace := trace t @ map EvEdit es @ [EvCompile g, EvRegisterIncrement g] @ map EvRestore es\<rparr>)"
    by (simp add: call_unfold [OF assms(1,2)] with_cm_try_def en rb Editor_exit_eq assms(3))
  then show ?thesis
    by (simp add: same)
qed

lemma call_fn:
  assumes "dispatch ad s = (Inr (), t)"
    and "es = (case edits_arg of None \<Rightarrow> edits s | Some es' \<Rightarrow> es')"
    and "local_model t = Some m"
    and "appliable es (applied m)"
    and "compile ad (graphs t g) (Some (m\<lparr>applied := applied m + mset es\<rparr>)) = Inr gr"
    and "fn inputs as kws = Outcome n r"
  shows "AbstractModel_call ad fn inputs g as edits_arg inference kws s =
           (r, t\<lparr>local_model :=
                   Some (m\<lparr>hooks := (case r of Inl e \<Rightarrow> add_mset (IncrementHook g) (hooks m) | Inr out \<Rightarrow> hooks m),
                           training := \<not> inference\<rparr>),
                 graphs := (\<lambda>h. (((graphs t)(g := gr)) h)
                              \<lparr>step_counter := step_counter (((graphs t)(g := gr)) h)
                                     + n * count (add_mset (IncrementHook g) (hooks m)) (IncrementHook h)\<rparr>),
                 trace := trace t @ map EvEdit es
                            @ [EvCompile g, EvRegisterIncrement g,
                               if inference then EvEval else EvTrain, EvInferenceEnter inference]
                            @ map EvHookInstall (hooked_modules gr)
                            @ [EvFn inputs as kws inference (Some (\<not> inference))]
                            @ replicate n EvForward @ map EvHookRemove (hooked_modules gr)
                            @ [EvInferenceExit]
                            @ (case r of Inl e \<Rightarrow> [] | Inr out \<Rightarrow> [EvRemoveIncrement g])
                            @ map EvRestore es\<rparr>)"
proof -
  let ?m = "m\<lparr>applied := applied m + mset es\<rparr>"
  let ?t = "t\<lparr>local_model := Some ?m, trace := trace t @ map EvEdit es\<rparr>"
  have ok: "editor_ok es (local_model t)"
    by (simp add: editor_ok_def assms(3,4))
  have en: "Editor_enter es t = (Inr (), ?t)"
    using Editor_enter_eq [OF ok] by (simp add: assms(3))
  have lm: "local_model ?t = Some ?m"
    by simp
  have cp: "compile ad (graphs ?t g) (Some ?m) = Inr gr"
    by (simp add: assms(5))
  note rb = run_body_fn [where fn = fn and inputs = inputs and as = as and kws = kws
      and inference = inference, OF lm cp assms(6)]
  have "AbstractModel_call ad fn inputs g as edits_arg inference kws s =
          (r, Editor_exit es (snd (run_body ad fn inputs g as kws inference ?t)))"
    by (simp add: call_unfold [OF assms(1,2)] with_cm_try_def en rb)
  then show ?thesis
    by (simp add: rb Editor_exit_eq cong: sum.case_cong if_cong)
qed

section \<open>The five ways a call ends\<close>

lemma new_events_append: "trace s' = trace s @ evs \<Longrightarrow> new_events s s' = evs"
  by (simp add: new_events_def)

lemma call_cases:
  assumes "AbstractModel_call ad fn inputs g as edits_arg inference kws s = (r, s')"
    and es: "es = (case edits_arg of None \<Rightarrow> edits s | Some es' \<Rightarrow> es')"
  obtains
    (dispatch_fails) e where "dispatch ad s = (Inl e, s')" "r = Inl e"
  | (editor_fails) t k m where "dispatch ad s = (Inr (), t)" "r = Inl AlreadyAppliedError"
      "k < length es" "local_model t = Some m" "\<not> appliable es (applied m)"
      "s' = t\<lparr>local_model := Some (m\<lparr>applied := applied m + mset (take k es)\<rparr>),
              trace := trace t @ map EvEdit (take (Suc k) es)\<rparr>"
  | (compile_fails) t e where "dispatch ad s = (Inr (), t)" "r = Inl e"
      "editor_ok es (local_model t)"
      "compile ad (graphs t g)
         (map_option (\<lambda>m. m\<lparr>applied := applied m + mset es\<rparr>) (local_model t)) = Inl e"
      "s' = t\<lparr>trace := trace t @ map EvEdit es @ [EvCompile g] @ map EvRestore es\<rparr>"
  | (no_local) t gr where "dispatch ad s = (Inr (), t)" "r = Inl AttributeError"
      "local_model t = None" "compile ad (graphs t g) None = Inr gr"
      "s' = t\<lparr>graphs := (graphs t)(g := gr),
              trace := trace t @ map EvEdit es @ [EvCompile g, EvRegisterIncrement g] @ map EvRestore es\<rparr>"
  | (fn_called) t m gr n where "dispatch ad s = (Inr (), t)" "local_model t = Some m"
      "appliable es (applied m)"
      "compile ad (graphs t g) (Some (m\<lparr>applied := applied m + mset es\<rparr>)) = Inr gr"
      "fn inputs as kws = Outcome n r"
      "s' = t\<lparr>local_model :=
                   Some (m\<lparr>hooks := (case r of Inl e \<Rightarrow> add_mset (IncrementHook g) (hooks m) | Inr out \<Rightarrow> hooks m),
                           training := \<not> inference\<rparr>),
                 graphs := (\<lambda>h. (((graphs t)(g := gr)) h)
                              \<lparr>step_counter := step_counter (((graphs t)(g := gr)) h)
                                     + n * count (add_mset (IncrementHook g) (hooks m)) (IncrementHook h)\<rparr>),
                 trace := trace t @ map EvEdit es
                            @ [EvCompile g, EvRegisterIncrement g,
                               if inference then EvEval else EvTrain, EvInferenceEnter inference]
                            @ map EvHookInstall (hooked_modules gr) @ [EvFn inputs as kws inference (Some (\<not> inference))]
                            @ replicate n EvForward @ map EvHookRemove (hooked_modules gr)
                            @ [EvInferenceExit]
                            @ (case r of Inl e \<Rightarrow> [] | Inr out \<Rightarrow> [EvRemoveIncrement g])
                            @ map EvRestore es\<rparr>"
proof -
  obtain rd t where d: "dispatch ad s = (rd, t)"
    by (cases "dispatch ad s")
  show thesis
  proof (cases rd)
    case (Inl e)
    with d assms(1) call_dispatch_fails [of ad s e t fn inputs g as edits_arg inference kws]
    show thesis by (auto intro: dispatch_fails)
  next
    case (Inr u)
    with d have d': "dispatch ad s = (Inr (), t)" by simp
    show thesis
    proof (cases "editor_ok es (local_model t)")
      case False
      from call_editor_fails [OF d' es False, of fn inputs g as inference kws]
      obtain k m where k: "k < length es" "local_model t = Some m"
        and c: "AbstractModel_call ad fn inputs g as edits_arg inference kws s =
               (Inl AlreadyAppliedError,
                t\<lparr>local_model := Some (m\<lparr>applied := applied m + mset (take k es)\<rparr>),
                  trace := trace t @ map EvEdit (take (Suc k) es)\<rparr>)"
        by blast
      from False k(2) have na: "\<not> appliable es (applied m)"
        by (simp add: editor_ok_def)
      from c assms(1) have "r = Inl AlreadyAppliedError"
        and "s' = t\<lparr>local_model := Some (m\<lparr>applied := applied m + mset (take k es)\<rparr>),
                  trace := trace t @ map EvEdit (take (Suc k) es)\<rparr>"
        by simp_all
      with d' k na show thesis by - (rule editor_fails [of t k m], assumption+)
    next
      case ok: True
      show thesis
      proof (cases "compile ad (graphs t g)
           (map_option (\<lambda>m. m\<lparr>applied := applied m + mset es\<rparr>) (local_model t))")
        case (Inl e)
        from call_compile_fails [OF d' es ok Inl, of fn inputs as inference kws] assms(1)
        have "r = Inl e"
          and "s' = t\<lparr>trace := trace t @ map EvEdit es @ [EvCompile g] @ map EvRestore es\<rparr>"
          by simp_all
        with d' ok Inl show thesis by - (rule compile_fails [of t e], assumption+)
      next
        case gr: (Inr gr)
        show thesis
        proof (cases "local_model t")
          case None
          with gr have c: "compile ad (graphs t g) None = Inr gr" by simp
          from call_no_local [OF d' es None c, of fn inputs as inference kws] assms(1)
          show thesis using d' None c by (auto intro: no_local)
        next
          case (Some m)
          with gr have c: "compile ad (graphs t g) (Some (m\<lparr>applied := applied m + mset es\<rparr>)) = Inr gr"
            by simp
          from ok Some have ap: "appliable es (applied m)"
            by (simp add: editor_ok_def)
          obtain n r0 where f: "fn inputs as kws = Outcome n r0"
            by (cases "fn inputs as kws")
          from call_fn [where fn = fn and inputs = inputs and as = as and kws = kws and inference = inference,
              OF d' es Some ap c f] assms(1)
          have "r = r0" and "s' = t\<lparr>local_model :=
                     Some (m\<lparr>hooks := (case r of Inl e \<Rightarrow> add_mset (IncrementHook g) (hooks m) | Inr out \<Rightarrow> hooks m),
                             training := \<not> inference\<rparr>),
                   graphs := (\<lambda>h. (((graphs t)(g := gr)) h)
                                \<lparr>step_counter := step_counter (((graphs t)(g := gr)) h)
                                       + n * count (add_mset (IncrementHook g) (hooks m)) (IncrementHook h)\<rparr>),
                   trace := trace t @ map EvEdit es
                              @ [EvCompile g, EvRegisterIncrement g,
                                 if inference then EvEval else EvTrain, EvInferenceEnter inference]
                              @ map EvHookInstall (hooked_modules gr)
                              @ [EvFn inputs as kws inference (Some (\<not> inference))]
                              @ replicate n EvForward @ map EvHookRemove (hooked_modules gr)
                              @ [EvInferenceExit]
                              @ (case r of Inl e \<Rightarrow> [] | Inr out \<Rightarrow> [EvRemoveIncrement g])
                              @ map EvRestore es\<rparr>"
            by auto
          with d' Some ap c f show thesis by (auto intro: fn_called)
        qed
      qed
    qed
  qed
qed

section \<open>Runs of the toy model\<close>

lemma toy_custom_dispatch: "dispatch toy_adapter toy_custom = (Inr (), toy_custom)"
  by (simp add: dispatch_def toy_custom_def)

lemma toy_hooked_modules: "hooked_modules toy_graph = [''layers.0'', ''layers.1'']"
  by (simp add: hooked_modules_def toy_graph_def module_of_def)

lemma toy_repo_dispatch:
  "dispatch toy_adapter toy_repo =
     (Inr (), toy_repo\<lparr>local_model := Some (freeze toy_local), trace := [EvLoadLocal, EvFreeze]\<rparr>)"
  by (simp add: dispatch_load toy_repo_def toy_world_def toy_adapter_def alteration_patcher_def
      alteration_def Patcher_def)

lemma toy_repo_call:
  "AbstractModel_call toy_adapter toy_fn 7 0 [] None True [] toy_repo =
     (Inr 7,
      toy_repo\<lparr>local_model := Some ((freeze toy_local)\<lparr>training := False\<rparr>),
        graphs := (\<lambda>h. if h = 0 then toy_graph\<lparr>step_counter := 2\<rparr> else toy_graph),
        trace := [EvLoadLocal, EvFreeze, EvCompile 0, EvRegisterIncrement 0, EvEval,
                  EvInferenceEnter True, EvHookInstall ''layers.0'', EvHookInstall ''layers.1'',
                  EvFn 7 [] [] True (Some False), EvForward, EvForward, EvHookRemove ''layers.0'',
                  EvHookRemove ''layers.1'', EvInferenceExit, EvRemoveIncrement 0]\<rparr>)"
proof -
  have h2: "[] = (case None of None \<Rightarrow> edits toy_repo | Some es' \<Rightarrow> es')"
    by (simp add: toy_repo_def toy_world_def)
  have h3: "local_model (toy_repo\<lparr>local_model := Some (freeze toy_local), trace := [EvLoadLocal, EvFreeze]\<rparr>)
              = Some (freeze toy_local)"
    by simp
  have h4: "compile toy_adapter
              (graphs (toy_repo\<lparr>local_model := Some (freeze toy_local), trace := [EvLoadLocal, EvFreeze]\<rparr>) 0)
              (Some ((freeze toy_local)\<lparr>applied := applied (freeze toy_local) + mset []\<rparr>)) = Inr toy_graph"
    by (simp add: toy_adapter_def toy_repo_def toy_world_def)
  have h5: "toy_fn 7 [] [] = Outcome 2 (Inr 7)"
    by (simp add: toy_fn_def)
  have ha: "appliable [] (applied (freeze toy_local))"
    by simp
  show ?thesis
    by (simp add: call_fn [where fn = toy_fn and inputs = 7 and as = "[]" and kws = "[]",
          OF toy_repo_dispatch h2 h3 ha h4 h5] toy_hooked_modules numeral_2_eq_2)
      (auto simp: fun_eq_iff toy_repo_def toy_world_def toy_graph_def freeze_def toy_local_def)
qed

section \<open>Modes and arguments of a run\<close>

lemma dispatch_new_events:
  assumes "dispatch ad s = (r, t)"
  shows "trace t = trace s @ new_events s t"
  using dispatch_trace [OF assms] by (auto simp: new_events_def)

text \<open>
  Claim C8. In a call that reaches the user function, the local model is put in eval mode
  when \<open>inference\<close> holds and in train mode otherwise, and the user function is called
  while the flag of \<^verbatim>\<open>torch.inference_mode\<close> is \<open>inference\<close> itself and the local model's
  \<open>training\<close> flag is its negation: the event \<open>EvFn\<close> records both as they are at that
  moment, next to the inputs, the extra positional arguments and the keyword arguments, which
  are the ones passed to the call. The user function runs between the entry of
  \<^verbatim>\<open>torch.inference_mode(mode=inference)\<close> and its exit, after which the flag is what it was
  before the call. The edits handed to the \<^verbatim>\<open>Editor\<close> are the model's own list when
  \<open>edits\<close> is \<^verbatim>\<open>None\<close>. \<open>True\<close> and \<^verbatim>\<open>None\<close> are what the signature passes for an
  omitted \<open>inference\<close> and \<open>edits\<close>.
\<close>

theorem call_modes_and_arguments:
  assumes "dispatch ad s = (Inr (), t)"
    and "es = (case edits_arg of None \<Rightarrow> edits s | Some es' \<Rightarrow> es')"
    and "local_model t = Some m"
    and "appliable es (applied m)"
    and "compile ad (graphs t g) (Some (m\<lparr>applied := applied m + mset es\<rparr>)) = Inr gr"
    and "fn inputs as kws = Outcome n r"
    and "AbstractModel_call ad fn inputs g as edits_arg inference kws s = (r', s')"
  shows "r' = r
       \<and> map_option training (local_model s') = Some (\<not> inference)
       \<and> inference_mode s' = inference_mode s
       \<and> new_events s s' =
           new_events s t @ map EvEdit es
           @ [EvCompile g, EvRegisterIncrement g,
              if inference then EvEval else EvTrain, EvInferenceEnter inference]
           @ map EvHookInstall (hooked_modules gr)
           @ [EvFn inputs as kws inference (Some (\<not> inference))]
           @ replicate n EvForward @ map EvHookRemove (hooked_modules gr)
           @ [EvInferenceExit]
           @ (case r of Inl e \<Rightarrow> [] | Inr out \<Rightarrow> [EvRemoveIncrement g])
           @ map EvRestore es"
proof -
  note c = call_fn [where fn = fn and inputs = inputs and as = as and kws = kws
      and inference = inference, OF assms(1-6)]
  from c assms(7) have r: "r' = r" by simp
  from c assms(7) have s': "s' = snd (AbstractModel_call ad fn inputs g as edits_arg inference kws s)"
    by simp
  have tr: "trace t = trace s @ new_events s t"
    by (rule dispatch_new_events [OF assms(1)])
  have im: "inference_mode t = inference_mode s"
    using dispatch_fields [OF assms(1)] by simp
  have "new_events s s' =
           new_events s t @ map EvEdit es
           @ [EvCompile g, EvRegisterIncrement g,
              if inference then EvEval else EvTrain, EvInferenceEnter inference]
           @ map EvHookInstall (hooked_modules gr)
           @ [EvFn inputs as kws inference (Some (\<not> inference))]
           @ replicate n EvForward @ map EvHookRemove (hooked_modules gr)
           @ [EvInferenceExit]
           @ (case r of Inl e \<Rightarrow> [] | Inr out \<Rightarrow> [EvRemoveIncrement g])
           @ map EvRestore es"
    by (rule new_events_append) (simp add: s' c, subst tr, simp)
  moreover have "map_option training (local_model s') = Some (\<not> inference)"
    by (simp add: s' c)
  moreover have "inference_mode s' = inference_mode s"
    by (simp add: s' c im)
  ultimately show ?thesis using r by simp
qed

theorem call_modes_and_arguments_witness:
  "dispatch toy_adapter toy_custom = (Inr (), toy_custom)
   \<and> local_model toy_custom = Some toy_local
   \<and> appliable [] (applied toy_local)
   \<and> compile toy_adapter (graphs toy_custom 0) (Some (toy_local\<lparr>applied := applied toy_local + mset []\<rparr>)) = Inr toy_graph
   \<and> toy_fn 7 [1] [(''k'', 2)] = Outcome 2 (Inr 7)
   \<and> inference_mode toy_custom = False
   \<and> training toy_local = True
   \<and> fst (AbstractModel_call toy_adapter toy_fn 7 0 [1] None True [(''k'', 2)] toy_custom) = Inr 7
   \<and> map_option training (local_model (snd (AbstractModel_call toy_adapter toy_fn 7 0 [1] None True [(''k'', 2)] toy_custom))) = Some False
   \<and> inference_mode (snd (AbstractModel_call toy_adapter toy_fn 7 0 [1] None True [(''k'', 2)] toy_custom)) = False
   \<and> new_events toy_custom (snd (AbstractModel_call toy_adapter toy_fn 7 0 [1] None True [(''k'', 2)] toy_custom)) =
       [EvCompile 0, EvRegisterIncrement 0, EvEval, EvInferenceEnter True,
        EvHookInstall ''layers.0'', EvHookInstall ''layers.1'',
        EvFn 7 [1] [(''k'', 2)] True (Some False),
        EvForward, EvForward, EvHookRemove ''layers.0'', EvHookRemove ''layers.1'',
        EvInferenceExit, EvRemoveIncrement 0]"
proof -
  have h1: "dispatch toy_adapter toy_custom = (Inr (), toy_custom)"
    by (rule toy_custom_dispatch)
  have h2: "[] = (case None of None \<Rightarrow> edits toy_custom | Some es' \<Rightarrow> es')"
    by (simp add: toy_custom_def toy_world_def)
  have h3: "local_model toy_custom = Some toy_local"
    by (simp add: toy_custom_def)
  have ha: "appliable [] (applied toy_local)"
    by simp
  have h4: "compile toy_adapter (graphs toy_custom 0)
              (Some (toy_local\<lparr>applied := applied toy_local + mset []\<rparr>)) = Inr toy_graph"
    by (simp add: toy_adapter_def toy_custom_def toy_world_def)
  have h5: "toy_fn 7 [1] [(''k'', 2)] = Outcome 2 (Inr 7)"
    by (simp add: toy_fn_def)
  have h6: "AbstractModel_call toy_adapter toy_fn 7 0 [1] None True [(''k'', 2)] toy_custom =
          (fst (AbstractModel_call toy_adapter toy_fn 7 0 [1] None True [(''k'', 2)] toy_custom),
           snd (AbstractModel_call toy_adapter toy_fn 7 0 [1] None True [(''k'', 2)] toy_custom))"
    by simp
  have ne: "new_events toy_custom toy_custom = []"
    by (simp add: new_events_def)
  have im: "inference_mode toy_custom = False"
    by (simp add: toy_custom_def toy_world_def)
  have tl: "training toy_local = True"
    by (simp add: toy_local_def)
  from call_modes_and_arguments [where fn = toy_fn and inputs = 7 and as = "[1]"
      and kws = "[(''k'', 2)]", OF h1 h2 h3 ha h4 h5 h6]
  show ?thesis
    using h1 h3 h4 h5 im tl by (simp add: ne toy_hooked_modules numeral_2_eq_2)
qed

section \<open>The hooked module paths\<close>

lemma split_dot_nonempty: "split_dot s \<noteq> []"
  by (induction s) (auto split: list.splits)

lemma split_dot_plain: "CHR ''.'' \<notin> set w \<Longrightarrow> split_dot w = [w]"
  by (induction w) auto

lemma split_dot_append:
  "CHR ''.'' \<notin> set w \<Longrightarrow> split_dot (w @ CHR ''.'' # rest) = w # split_dot rest"
  by (induction w) (auto split: list.splits simp: split_dot_nonempty)

lemma split_join:
  "ws \<noteq> [] \<Longrightarrow> \<forall>w \<in> set ws. CHR ''.'' \<notin> set w \<Longrightarrow> split_dot (join_dot ws) = ws"
proof (induction ws rule: join_dot.induct)
  case 1
  then show ?case by simp
next
  case (2 w)
  then show ?case by (simp add: split_dot_plain)
next
  case (3 w v vs)
  then show ?case by (simp add: split_dot_append)
qed

lemma module_of_join:
  assumes "\<forall>w \<in> set (ps @ [a, b]). CHR ''.'' \<notin> set w"
  shows "module_of (join_dot (ps @ [a, b])) = join_dot ps"
proof -
  have "split_dot (join_dot (ps @ [a, b])) = ps @ [a, b]"
    by (rule split_join) (use assms in auto)
  then show ?thesis by (simp add: module_of_def)
qed

lemma hook_installs_append [simp]: "hook_installs (xs @ ys) = hook_installs xs @ hook_installs ys"
  by (induction xs rule: hook_installs.induct) simp_all

lemma hook_installs_map_install [simp]: "hook_installs (map EvHookInstall ps) = ps"
  by (induction ps) simp_all

lemma hook_installs_none: "\<forall>e \<in> set evs. \<not> is_compute e \<Longrightarrow> hook_installs evs = []"
  by (induction evs rule: hook_installs.induct) simp_all

lemma hook_installs_edit [simp]: "hook_installs (map EvEdit es) = []"
  by (induction es) simp_all

lemma hook_installs_restore [simp]: "hook_installs (map EvRestore es) = []"
  by (induction es) simp_all

lemma hook_installs_remove [simp]: "hook_installs (map EvHookRemove ps) = []"
  by (induction ps) simp_all

lemma hook_installs_forward [simp]: "hook_installs (replicate n EvForward) = []"
  by (induction n) simp_all

lemma hook_installs_load: "set L \<subseteq> {EvLoadLocal, EvFreeze} \<Longrightarrow> hook_installs L = []"
  by (induction L rule: hook_installs.induct) simp_all

lemma argument_names_after_passes:
  "argument_node_names (gr\<lparr>step_counter := k\<rparr>) = argument_node_names gr"
  by simp

text \<open>
  Claim C4. In a call that reaches the hooks (the local model is there, its edits can be
  applied and the graph compiles), the paths on which \<^verbatim>\<open>HookModel\<close> installs
  its input and output hooks are, as a set and without repetition, the keys of the compiled
  graph's \<^verbatim>\<open>argument_node_names\<close> with their last two dot-separated components dropped;
  the table is the one the graph still has after the run.
\<close>

theorem hooks_on_argument_modules:
  assumes "dispatch ad s = (Inr (), t)"
    and "es = (case edits_arg of None \<Rightarrow> edits s | Some es' \<Rightarrow> es')"
    and "local_model t = Some m"
    and "appliable es (applied m)"
    and "compile ad (graphs t g) (Some (m\<lparr>applied := applied m + mset es\<rparr>)) = Inr gr"
    and "AbstractModel_call ad fn inputs g as edits_arg inference kws s = (r, s')"
  shows "set (hook_installs (new_events s s')) = module_of ` fst ` set (argument_node_names gr)
       \<and> distinct (hook_installs (new_events s s'))
       \<and> argument_node_names (graphs s' g) = argument_node_names gr
       \<and> (\<forall>ps a b. (\<forall>w \<in> set (ps @ [a, b]). CHR ''.'' \<notin> set w)
              \<longrightarrow> module_of (join_dot (ps @ [a, b])) = join_dot ps)"
proof -
  obtain n r0 where f: "fn inputs as kws = Outcome n r0"
    by (cases "fn inputs as kws")
  note c = call_fn [where fn = fn and inputs = inputs and as = as and kws = kws
      and inference = inference, OF assms(1-5) f]
  from c assms(6) have s': "s' = snd (AbstractModel_call ad fn inputs g as edits_arg inference kws s)"
    by simp
  obtain L where L: "trace t = trace s @ L" "set L \<subseteq> {EvLoadLocal, EvFreeze}"
    using dispatch_trace [OF assms(1)] by blast
  have "new_events s s' =
           L @ map EvEdit es
           @ [EvCompile g, EvRegisterIncrement g,
              if inference then EvEval else EvTrain, EvInferenceEnter inference]
           @ map EvHookInstall (hooked_modules gr) @ [EvFn inputs as kws inference (Some (\<not> inference))]
           @ replicate n EvForward @ map EvHookRemove (hooked_modules gr)
           @ [EvInferenceExit]
           @ (case r0 of Inl e \<Rightarrow> [] | Inr out \<Rightarrow> [EvRemoveIncrement g])
           @ map EvRestore es"
    by (rule new_events_append) (simp add: s' c L(1))
  then have hi: "hook_installs (new_events s s') = hooked_modules gr"
    by (simp add: hook_installs_load [OF L(2)] split: sum.splits)
  have "argument_node_names (graphs s' g) = argument_node_names gr"
    by (simp add: s' c)
  moreover have "set (hooked_modules gr) = module_of ` fst ` set (argument_node_names gr)"
    by (simp add: hooked_modules_def image_image)
  moreover have "distinct (hooked_modules gr)"
    by (simp add: hooked_modules_def)
  ultimately show ?thesis
    using hi module_of_join by auto
qed

theorem hooks_on_argument_modules_witness:
  "dispatch toy_adapter toy_custom = (Inr (), toy_custom)
   \<and> local_model toy_custom = Some toy_local
   \<and> appliable [] (applied toy_local)
   \<and> compile toy_adapter (graphs toy_custom 0) (Some (toy_local\<lparr>applied := applied toy_local + mset []\<rparr>)) = Inr toy_graph
   \<and> set (hook_installs (new_events toy_custom
             (snd (AbstractModel_call toy_adapter toy_fn 7 0 [] None True [] toy_custom))))
       = {''layers.0'', ''layers.1''}
   \<and> module_of (join_dot ([''layers'', ''0''] @ [''output'', ''0''])) = ''layers.0''"
proof -
  have h1: "dispatch toy_adapter toy_custom = (Inr (), toy_custom)"
    by (simp add: dispatch_def toy_custom_def)
  have h2: "[] = (case None of None \<Rightarrow> edits toy_custom | Some es' \<Rightarrow> es')"
    by (simp add: toy_custom_def toy_world_def)
  have h3: "local_model toy_custom = Some toy_local"
    by (simp add: toy_custom_def)
  have h4: "compile toy_adapter (graphs toy_custom 0)
              (Some (toy_local\<lparr>applied := applied toy_local + mset []\<rparr>)) = Inr toy_graph"
    by (simp add: toy_adapter_def toy_custom_def toy_world_def)
  have h5: "AbstractModel_call toy_adapter toy_fn 7 0 [] None True [] toy_custom =
          (fst (AbstractModel_call toy_adapter toy_fn 7 0 [] None True [] toy_custom),
           snd (AbstractModel_call toy_adapter toy_fn 7 0 [] None True [] toy_custom))"
    by simp
  have k: "module_of ` fst ` set (argument_node_names toy_graph) = {''layers.0'', ''layers.1''}"
    by (simp add: toy_graph_def module_of_def)
  have j: "\<forall>w \<in> set ([''layers'', ''0''] @ [''output'', ''0'']). CHR ''.'' \<notin> set w"
    by simp
  have ha: "appliable [] (applied toy_local)"
    by simp
  from hooks_on_argument_modules [OF h1 h2 h3 ha h4 h5] j
  have "set (hook_installs (new_events toy_custom
             (snd (AbstractModel_call toy_adapter toy_fn 7 0 [] None True [] toy_custom))))
       = module_of ` fst ` set (argument_node_names toy_graph)"
    and "module_of (join_dot ([''layers'', ''0''] @ [''output'', ''0''])) = join_dot [''layers'', ''0'']"
    by blast+
  then show ?thesis
    using h1 h3 h4 k by simp
qed

section \<open>Compilation comes first\<close>

lemma takeWhile_until:
  "\<forall>x \<in> set pre. x \<noteq> c \<Longrightarrow> takeWhile (\<lambda>x. x \<noteq> c) (pre @ c # post) = pre"
  by (induction pre) simp_all

lemma quiet_until:
  assumes "\<forall>x \<in> set pre. \<not> is_compute x \<and> x \<noteq> c"
  shows "\<forall>ev \<in> set (takeWhile (\<lambda>x. x \<noteq> c) (pre @ c # post)). \<not> is_compute ev"
proof -
  have "takeWhile (\<lambda>x. x \<noteq> c) (pre @ c # post) = pre"
    by (rule takeWhile_until) (use assms in blast)
  with assms show ?thesis by simp
qed

lemma load_events_quiet:
  assumes "set L \<subseteq> {EvLoadLocal, EvFreeze}"
  shows "\<forall>ev \<in> set (L @ map EvEdit es). \<not> is_compute ev \<and> ev \<noteq> EvCompile g"
  using assms by auto

text \<open>
  Claim C5. In every call, no hook is installed, the user function is not called and no
  forward pass runs before \<^verbatim>\<open>graph.compile\<close> has been invoked; when the compilation
  fails, its error is the result of the call, none of these things has happened at all,
  and the local model and the graphs are as they were. The compilation is reached when the
  \<^verbatim>\<open>Editor\<close> could apply the edits; when it could not, the call fails with
  \<open>AlreadyAppliedError\<close> and again nothing has been computed.
\<close>

theorem compile_before_computation:
  assumes "AbstractModel_call ad fn inputs g as edits_arg inference kws s = (r, s')"
    and "es = (case edits_arg of None \<Rightarrow> edits s | Some es' \<Rightarrow> es')"
  shows "(\<forall>ev \<in> set (takeWhile (\<lambda>ev. ev \<noteq> EvCompile g) (new_events s s')). \<not> is_compute ev)
       \<and> (\<forall>t e. dispatch ad s = (Inr (), t) \<and> editor_ok es (local_model t)
              \<and> compile ad (graphs t g)
                   (map_option (\<lambda>m. m\<lparr>applied := applied m + mset es\<rparr>) (local_model t)) = Inl e
            \<longrightarrow> r = Inl e \<and> (\<forall>ev \<in> set (new_events s s'). \<not> is_compute ev)
                \<and> local_model s' = local_model t \<and> graphs s' = graphs s)
       \<and> (\<forall>t. dispatch ad s = (Inr (), t) \<and> \<not> editor_ok es (local_model t)
            \<longrightarrow> r = Inl AlreadyAppliedError \<and> (\<forall>ev \<in> set (new_events s s'). \<not> is_compute ev)
                \<and> graphs s' = graphs s)"
proof (intro conjI allI impI)
  show "\<forall>ev \<in> set (takeWhile (\<lambda>ev. ev \<noteq> EvCompile g) (new_events s s')). \<not> is_compute ev"
    using assms
  proof (cases rule: call_cases)
    case (dispatch_fails e)
    then obtain L where "trace s' = trace s @ L" "set L \<subseteq> {EvLoadLocal, EvFreeze}"
      using dispatch_trace by blast
    then have "new_events s s' = L" "\<forall>ev \<in> set L. \<not> is_compute ev"
      by (auto simp: new_events_def)
    then show ?thesis by (auto dest: set_takeWhileD)
  next
    case (editor_fails t k m)
    then obtain L where L: "trace t = trace s @ L" "set L \<subseteq> {EvLoadLocal, EvFreeze}"
      using dispatch_trace by blast
    have "new_events s s' = L @ map EvEdit (take (Suc k) es)"
      by (rule new_events_append) (simp add: editor_fails(6) L(1))
    moreover have "\<forall>ev \<in> set (L @ map EvEdit (take (Suc k) es)). \<not> is_compute ev"
      using load_events_quiet [OF L(2), of "take (Suc k) es" g] by blast
    ultimately show ?thesis by (auto dest: set_takeWhileD)
  next
    case (compile_fails t e)
    then obtain L where L: "trace t = trace s @ L" "set L \<subseteq> {EvLoadLocal, EvFreeze}"
      using dispatch_trace by blast
    have "new_events s s' = (L @ map EvEdit es) @ EvCompile g # map EvRestore es"
      by (rule new_events_append) (simp add: compile_fails(5) L(1))
    then show ?thesis
      using quiet_until [OF load_events_quiet [OF L(2)]] by simp
  next
    case (no_local t gr)
    then obtain L where L: "trace t = trace s @ L" "set L \<subseteq> {EvLoadLocal, EvFreeze}"
      using dispatch_trace by blast
    have "new_events s s' = (L @ map EvEdit es) @ EvCompile g # EvRegisterIncrement g # map EvRestore es"
      by (rule new_events_append) (simp add: no_local(5) L(1))
    then show ?thesis
      using quiet_until [OF load_events_quiet [OF L(2)]] by simp
  next
    case (fn_called t m gr n)
    then obtain L where L: "trace t = trace s @ L" "set L \<subseteq> {EvLoadLocal, EvFreeze}"
      using dispatch_trace by blast
    have "\<exists>post. new_events s s' = (L @ map EvEdit es) @ EvCompile g # post"
      by (rule exI, rule new_events_append) (simp add: fn_called(6) L(1))
    then obtain post where "new_events s s' = (L @ map EvEdit es) @ EvCompile g # post" ..
    then show ?thesis
      using quiet_until [OF load_events_quiet [OF L(2)]] by simp
  qed
next
  fix t e
  assume a: "dispatch ad s = (Inr (), t) \<and> editor_ok es (local_model t)
              \<and> compile ad (graphs t g)
                   (map_option (\<lambda>m. m\<lparr>applied := applied m + mset es\<rparr>) (local_model t)) = Inl e"
  then have d: "dispatch ad s = (Inr (), t)" and ok: "editor_ok es (local_model t)"
    and c: "compile ad (graphs t g)
                   (map_option (\<lambda>m. m\<lparr>applied := applied m + mset es\<rparr>) (local_model t)) = Inl e"
    by simp_all
  from call_compile_fails [OF d assms(2) ok c, of fn inputs as inference kws] assms(1)
  have r: "r = Inl e" and s': "s' = t\<lparr>trace := trace t @ map EvEdit es @ [EvCompile g] @ map EvRestore es\<rparr>"
    by simp_all
  obtain L where L: "trace t = trace s @ L" "set L \<subseteq> {EvLoadLocal, EvFreeze}"
    using dispatch_trace [OF d] by blast
  have ne: "new_events s s' = L @ map EvEdit es @ [EvCompile g] @ map EvRestore es"
    by (rule new_events_append) (simp add: s' L(1))
  show "r = Inl e" by (rule r)
  show "\<forall>ev \<in> set (new_events s s'). \<not> is_compute ev"
    using L(2) by (auto simp: ne)
  show "local_model s' = local_model t" by (simp add: s')
  show "graphs s' = graphs s" using dispatch_fields [OF d] by (simp add: s')
next
  fix t
  assume a: "dispatch ad s = (Inr (), t) \<and> \<not> editor_ok es (local_model t)"
  then have d: "dispatch ad s = (Inr (), t)" and nok: "\<not> editor_ok es (local_model t)"
    by simp_all
  from call_editor_fails [OF d assms(2) nok, of fn inputs g as inference kws] assms(1)
  obtain k m where r: "r = Inl AlreadyAppliedError"
    and s': "s' = t\<lparr>local_model := Some (m\<lparr>applied := applied m + mset (take k es)\<rparr>),
                    trace := trace t @ map EvEdit (take (Suc k) es)\<rparr>"
    by auto
  obtain L where L: "trace t = trace s @ L" "set L \<subseteq> {EvLoadLocal, EvFreeze}"
    using dispatch_trace [OF d] by blast
  have ne: "new_events s s' = L @ map EvEdit (take (Suc k) es)"
    by (rule new_events_append) (simp add: s' L(1))
  show "r = Inl AlreadyAppliedError" by (rule r)
  show "\<forall>ev \<in> set (new_events s s'). \<not> is_compute ev"
    using L(2) by (auto simp: ne)
  show "graphs s' = graphs s" using dispatch_fields [OF d] by (simp add: s')
qed

theorem compile_before_computation_witness:
  "dispatch stale_graph_adapter toy_custom = (Inr (), toy_custom)
   \<and> editor_ok [] (local_model toy_custom)
   \<and> compile stale_graph_adapter (graphs toy_custom 0)
        (map_option (\<lambda>m. m\<lparr>applied := applied m + mset []\<rparr>) (local_model toy_custom))
       = Inl UnresolvedDependencyError
   \<and> fst (AbstractModel_call stale_graph_adapter toy_fn 7 0 [] None True [] toy_custom)
       = Inl UnresolvedDependencyError
   \<and> new_events toy_custom (snd (AbstractModel_call stale_graph_adapter toy_fn 7 0 [] None True [] toy_custom))
       = [EvCompile 0]
   \<and> takeWhile (\<lambda>ev. ev \<noteq> EvCompile 0)
         (new_events toy_repo (snd (AbstractModel_call toy_adapter toy_fn 7 0 [] None True [] toy_repo)))
       = [EvLoadLocal, EvFreeze]
   \<and> \<not> is_compute (EvLoadLocal :: (nat, nat) event) \<and> \<not> is_compute (EvFreeze :: (nat, nat) event)"
proof -
  let ?c = "AbstractModel_call stale_graph_adapter toy_fn 7 0 [] None True [] toy_custom"
  let ?k = "AbstractModel_call toy_adapter toy_fn 7 0 [] None True [] toy_repo"
  have h1: "dispatch stale_graph_adapter toy_custom = (Inr (), toy_custom)"
    by (simp add: dispatch_def toy_custom_def)
  have h2: "[] = (case None of None \<Rightarrow> edits toy_custom | Some es' \<Rightarrow> es')"
    by (simp add: toy_custom_def toy_world_def)
  have h2': "[] = (case None of None \<Rightarrow> edits toy_repo | Some es' \<Rightarrow> es')"
    by (simp add: toy_repo_def toy_world_def)
  have h3: "compile stale_graph_adapter (graphs toy_custom 0)
        (map_option (\<lambda>m. m\<lparr>applied := applied m + mset []\<rparr>) (local_model toy_custom))
       = Inl UnresolvedDependencyError"
    by (simp add: stale_graph_adapter_def)
  have ok: "editor_ok [] (local_model toy_custom)"
    by (simp add: editor_ok_def toy_custom_def)
  have c: "?c = (fst ?c, snd ?c)" and k: "?k = (fst ?k, snd ?k)"
    by simp_all
  have ne: "new_events toy_custom (snd ?c) = [EvCompile 0]"
    by (simp add: call_compile_fails [OF h1 h2 ok h3] new_events_def)
  have tr: "trace toy_repo = []"
    by (simp add: toy_repo_def toy_world_def)
  have tk: "takeWhile (\<lambda>ev. ev \<noteq> EvCompile 0) (new_events toy_repo (snd ?k)) = [EvLoadLocal, EvFreeze]"
    by (simp add: toy_repo_call new_events_def tr)
  from compile_before_computation [OF c h2] h1 ok h3
  have "fst ?c = Inl UnresolvedDependencyError" by blast
  moreover from compile_before_computation [OF k h2'] tk
  have "\<not> is_compute (EvLoadLocal :: (nat, nat) event) \<and> \<not> is_compute (EvFreeze :: (nat, nat) event)"
    by simp
  ultimately show ?thesis
    using h1 ok h3 ne tk by simp
qed

section \<open>Counting events\<close>

lemma count_load_events:
  "set L \<subseteq> {EvLoadLocal, EvFreeze} \<Longrightarrow> count_list L (EvRegisterIncrement g) = 0
     \<and> count_list L (EvRemoveIncrement g) = 0"
  by (induction L) auto

lemma count_list_map_other:
  "(\<And>x. f x \<noteq> e) \<Longrightarrow> count_list (map f xs) e = 0"
  by (induction xs) auto

lemma count_list_replicate_other: "x \<noteq> e \<Longrightarrow> count_list (replicate n x) e = 0"
  by (induction n) auto

section \<open>A failed run\<close>

text \<open>
  Claim C1. When the user function raises, the error is the result of the call, the edits
  are reverted and the input and output hooks are removed, but the increment hook is not:
  \<^verbatim>\<open>increment_hook.remove()\<close> is skipped, and the local model keeps one more increment
  hook for the graph than it had before the run.
\<close>

theorem failed_run_leaves_increment_hook:
  assumes "dispatch ad s = (Inr (), t)"
    and "es = (case edits_arg of None \<Rightarrow> edits s | Some es' \<Rightarrow> es')"
    and "local_model t = Some m"
    and "appliable es (applied m)"
    and "compile ad (graphs t g) (Some (m\<lparr>applied := applied m + mset es\<rparr>)) = Inr gr"
    and "fn inputs as kws = Outcome n (Inl e)"
    and "AbstractModel_call ad fn inputs g as edits_arg inference kws s = (r, s')"
  shows "r = Inl e
       \<and> map_option applied (local_model s') = Some (applied m)
       \<and> map_option hooks (local_model s') = Some (add_mset (IncrementHook g) (hooks m))
       \<and> EvRemoveIncrement g \<notin> set (new_events s s')"
proof -
  note c = call_fn [where fn = fn and inputs = inputs and as = as and kws = kws
      and inference = inference, OF assms(1-6)]
  from c assms(7) have r: "r = Inl e"
    and s': "s' = snd (AbstractModel_call ad fn inputs g as edits_arg inference kws s)"
    by simp_all
  obtain L where L: "trace t = trace s @ L" "set L \<subseteq> {EvLoadLocal, EvFreeze}"
    using dispatch_trace [OF assms(1)] by blast
  have ne: "new_events s s' =
           L @ map EvEdit es
           @ [EvCompile g, EvRegisterIncrement g,
              if inference then EvEval else EvTrain, EvInferenceEnter inference]
           @ map EvHookInstall (hooked_modules gr)
           @ [EvFn inputs as kws inference (Some (\<not> inference))]
           @ replicate n EvForward @ map EvHookRemove (hooked_modules gr)
           @ [EvInferenceExit] @ map EvRestore es"
    by (rule new_events_append) (simp add: s' c L(1))
  have "EvRemoveIncrement g \<notin> set (new_events s s')"
    using L(2) by (auto simp: ne)
  moreover have "map_option applied (local_model s') = Some (applied m)"
    by (simp add: s' c)
  moreover have "map_option hooks (local_model s') = Some (add_mset (IncrementHook g) (hooks m))"
    by (simp add: s' c)
  ultimately show ?thesis using r by simp
qed

lemma toy_failed_call:
  "AbstractModel_call toy_adapter failing_fn 7 0 [] None True [] toy_custom =
     (Inl NodeEvaluationError,
      toy_custom\<lparr>local_model := Some (toy_local\<lparr>hooks := {#IncrementHook 0#}, training := False\<rparr>),
        trace := [EvCompile 0, EvRegisterIncrement 0, EvEval, EvInferenceEnter True,
                  EvHookInstall ''layers.0'', EvHookInstall ''layers.1'',
                  EvFn 7 [] [] True (Some False),
                  EvHookRemove ''layers.0'', EvHookRemove ''layers.1'', EvInferenceExit]\<rparr>)"
proof -
  have h2: "[] = (case None of None \<Rightarrow> edits toy_custom | Some es' \<Rightarrow> es')"
    by (simp add: toy_custom_def toy_world_def)
  have h3: "local_model toy_custom = Some toy_local"
    by (simp add: toy_custom_def)
  have ha: "appliable [] (applied toy_local)"
    by simp
  have h4: "compile toy_adapter (graphs toy_custom 0)
              (Some (toy_local\<lparr>applied := applied toy_local + mset []\<rparr>)) = Inr toy_graph"
    by (simp add: toy_adapter_def toy_custom_def toy_world_def)
  have h5: "failing_fn 7 [] [] = Outcome 0 (Inl NodeEvaluationError)"
    by (simp add: failing_fn_def)
  show ?thesis
    by (simp add: call_fn [where fn = failing_fn and inputs = 7 and as = "[]" and kws = "[]",
          OF toy_custom_dispatch h2 h3 ha h4 h5] toy_hooked_modules)
      (auto simp: fun_eq_iff toy_custom_def toy_world_def toy_graph_def toy_local_def)
qed

theorem failed_run_leaves_increment_hook_witness:
  "dispatch toy_adapter toy_custom = (Inr (), toy_custom)
   \<and> local_model toy_custom = Some toy_local
   \<and> appliable [] (applied toy_local)
   \<and> compile toy_adapter (graphs toy_custom 0) (Some (toy_local\<lparr>applied := applied toy_local + mset []\<rparr>)) = Inr toy_graph
   \<and> failing_fn 7 [] [] = Outcome 0 (Inl NodeEvaluationError)
   \<and> fst (AbstractModel_call toy_adapter failing_fn 7 0 [] None True [] toy_custom) = Inl NodeEvaluationError
   \<and> map_option hooks (local_model toy_custom) = Some {#}
   \<and> map_option hooks (local_model (snd (AbstractModel_call toy_adapter failing_fn 7 0 [] None True [] toy_custom)))
       = Some {#IncrementHook 0#}"
proof -
  let ?k = "AbstractModel_call toy_adapter failing_fn 7 0 [] None True [] toy_custom"
  have h2: "[] = (case None of None \<Rightarrow> edits toy_custom | Some es' \<Rightarrow> es')"
    by (simp add: toy_custom_def toy_world_def)
  have h3: "local_model toy_custom = Some toy_local"
    by (simp add: toy_custom_def)
  have ha: "appliable [] (applied toy_local)"
    by simp
  have h4: "compile toy_adapter (graphs toy_custom 0)
              (Some (toy_local\<lparr>applied := applied toy_local + mset []\<rparr>)) = Inr toy_graph"
    by (simp add: toy_adapter_def toy_custom_def toy_world_def)
  have h5: "failing_fn 7 [] [] = Outcome 0 (Inl NodeEvaluationError)"
    by (simp add: failing_fn_def)
  have k: "?k = (fst ?k, snd ?k)" by simp
  have hk: "hooks toy_local = {#}" by (simp add: toy_local_def)
  from failed_run_leaves_increment_hook [where fn = failing_fn and inputs = 7 and as = "[]"
      and kws = "[]", OF toy_custom_dispatch h2 h3 ha h4 h5 k]
  show ?thesis
    using toy_custom_dispatch h3 h4 h5 by (simp add: hk)
qed

section \<open>The step counter\<close>

text \<open>
  Claim C7. Every run that reaches the user function registers one increment hook for its
  graph, and removes it when the user function returns. The step counter, however, does not
  advance once per forward pass in every run: each pass fires every increment hook for the
  graph that the local model carries, the one of this run and the ones that earlier runs
  have left behind, so the counter ends at its value after compilation plus the number of
  passes times one more than the number of hooks left behind. When the user function raises,
  the hook of this run is itself left behind.
\<close>

theorem step_counter_counts_leftover_hooks:
  assumes "dispatch ad s = (Inr (), t)"
    and "es = (case edits_arg of None \<Rightarrow> edits s | Some es' \<Rightarrow> es')"
    and "local_model t = Some m"
    and "appliable es (applied m)"
    and "compile ad (graphs t g) (Some (m\<lparr>applied := applied m + mset es\<rparr>)) = Inr gr"
    and "fn inputs as kws = Outcome n r"
    and "AbstractModel_call ad fn inputs g as edits_arg inference kws s = (r', s')"
  shows "count_list (new_events s s') (EvRegisterIncrement g) = 1
       \<and> step_counter (graphs s' g) = step_counter gr + n * (1 + count (hooks m) (IncrementHook g))
       \<and> (\<forall>out. r = Inr out \<longrightarrow>
             count_list (new_events s s') (EvRemoveIncrement g) = 1
             \<and> map_option hooks (local_model s') = Some (hooks m))
       \<and> (\<forall>e. r = Inl e \<longrightarrow>
             count_list (new_events s s') (EvRemoveIncrement g) = 0
             \<and> map_option hooks (local_model s') = Some (add_mset (IncrementHook g) (hooks m)))"
proof -
  note c = call_fn [where fn = fn and inputs = inputs and as = as and kws = kws
      and inference = inference, OF assms(1-6)]
  from c assms(7) have s': "s' = snd (AbstractModel_call ad fn inputs g as edits_arg inference kws s)"
    by simp
  obtain L where L: "trace t = trace s @ L" "set L \<subseteq> {EvLoadLocal, EvFreeze}"
    using dispatch_trace [OF assms(1)] by blast
  have ne: "new_events s s' =
           L @ map EvEdit es
           @ [EvCompile g, EvRegisterIncrement g,
              if inference then EvEval else EvTrain, EvInferenceEnter inference]
           @ map EvHookInstall (hooked_modules gr)
           @ [EvFn inputs as kws inference (Some (\<not> inference))]
           @ replicate n EvForward @ map EvHookRemove (hooked_modules gr)
           @ [EvInferenceExit]
           @ (case r of Inl e \<Rightarrow> [] | Inr out \<Rightarrow> [EvRemoveIncrement g])
           @ map EvRestore es"
    by (rule new_events_append) (simp add: s' c L(1))
  have reg: "count_list (new_events s s') (EvRegisterIncrement g) = 1"
    by (simp add: ne count_load_events [OF L(2)] count_list_map_other
        count_list_replicate_other split: sum.splits)
  have step: "step_counter (graphs s' g) = step_counter gr + n * (1 + count (hooks m) (IncrementHook g))"
    by (simp add: s' c)
  have rem: "\<forall>out. r = Inr out \<longrightarrow>
             count_list (new_events s s') (EvRemoveIncrement g) = 1
             \<and> map_option hooks (local_model s') = Some (hooks m)"
  proof (intro allI impI)
    fix out
    assume r: "r = Inr out"
    have "count_list (new_events s s') (EvRemoveIncrement g) = 1"
      by (simp add: ne r count_load_events [OF L(2)] count_list_map_other
          count_list_replicate_other)
    moreover have "map_option hooks (local_model s') = Some (hooks m)"
      by (simp add: s' c r)
    ultimately show "count_list (new_events s s') (EvRemoveIncrement g) = 1
             \<and> map_option hooks (local_model s') = Some (hooks m)" by simp
  qed
  have left: "\<forall>e. r = Inl e \<longrightarrow>
             count_list (new_events s s') (EvRemoveIncrement g) = 0
             \<and> map_option hooks (local_model s') = Some (add_mset (IncrementHook g) (hooks m))"
  proof (intro allI impI)
    fix e
    assume r: "r = Inl e"
    have "count_list (new_events s s') (EvRemoveIncrement g) = 0"
      by (simp add: ne r count_load_events [OF L(2)] count_list_map_other
          count_list_replicate_other)
    moreover have "map_option hooks (local_model s') = Some (add_mset (IncrementHook g) (hooks m))"
      by (simp add: s' c r)
    ultimately show "count_list (new_events s s') (EvRemoveIncrement g) = 0
             \<and> map_option hooks (local_model s') = Some (add_mset (IncrementHook g) (hooks m))"
      by simp
  qed
  from reg step rem left show ?thesis by simp
qed

text \<open>
  The retry after a failed run: the toy function makes two forward passes, and on the model
  that the failed run has left the counter of graph 0 ends at four; on the model as built
  it ends at two.
\<close>

theorem step_counter_counts_leftover_hooks_witness:
  "fst (AbstractModel_call toy_adapter failing_fn 7 0 [] None True [] toy_custom) = Inl NodeEvaluationError
   \<and> toy_fn 7 [] [] = Outcome 2 (Inr 7)
   \<and> step_counter toy_graph = 0
   \<and> step_counter
       (graphs (snd (AbstractModel_call toy_adapter toy_fn 7 0 [] None True [] toy_custom)) 0) = 2
   \<and> step_counter
       (graphs (snd (AbstractModel_call toy_adapter toy_fn 7 0 [] None True []
                       (snd (AbstractModel_call toy_adapter failing_fn 7 0 [] None True [] toy_custom)))) 0)
       = 4
   \<and> map_option hooks
       (local_model (snd (AbstractModel_call toy_adapter toy_fn 7 0 [] None True []
                       (snd (AbstractModel_call toy_adapter failing_fn 7 0 [] None True [] toy_custom)))))
       = Some {#IncrementHook 0#}"
proof -
  let ?s1 = "toy_custom\<lparr>local_model := Some (toy_local\<lparr>hooks := {#IncrementHook 0#}, training := False\<rparr>),
        trace := [EvCompile 0, EvRegisterIncrement 0, EvEval, EvInferenceEnter True,
                  EvHookInstall ''layers.0'', EvHookInstall ''layers.1'',
                  EvFn 7 [] [] True (Some False),
                  EvHookRemove ''layers.0'', EvHookRemove ''layers.1'', EvInferenceExit]\<rparr>"
  let ?m1 = "toy_local\<lparr>hooks := {#IncrementHook 0#}, training := False\<rparr>"
  let ?k0 = "AbstractModel_call toy_adapter toy_fn 7 0 [] None True [] toy_custom"
  let ?k1 = "AbstractModel_call toy_adapter toy_fn 7 0 [] None True [] ?s1"
  have f: "snd (AbstractModel_call toy_adapter failing_fn 7 0 [] None True [] toy_custom) = ?s1"
    and ff: "fst (AbstractModel_call toy_adapter failing_fn 7 0 [] None True [] toy_custom)
               = Inl NodeEvaluationError"
    by (simp_all add: toy_failed_call)
  have g1: "dispatch toy_adapter ?s1 = (Inr (), ?s1)"
    by (simp add: dispatch_def toy_custom_def)
  have g2: "[] = (case None of None \<Rightarrow> edits ?s1 | Some es' \<Rightarrow> es')"
    by (simp add: toy_custom_def toy_world_def)
  have g3: "local_model ?s1 = Some ?m1"
    by simp
  have ga: "appliable [] (applied ?m1)"
    by simp
  have g4: "compile toy_adapter (graphs ?s1 0) (Some (?m1\<lparr>applied := applied ?m1 + mset []\<rparr>)) = Inr toy_graph"
    by (simp add: toy_adapter_def toy_custom_def toy_world_def)
  have h2: "[] = (case None of None \<Rightarrow> edits toy_custom | Some es' \<Rightarrow> es')"
    by (simp add: toy_custom_def toy_world_def)
  have h3: "local_model toy_custom = Some toy_local"
    by (simp add: toy_custom_def)
  have ha: "appliable [] (applied toy_local)"
    by simp
  have h4: "compile toy_adapter (graphs toy_custom 0)
              (Some (toy_local\<lparr>applied := applied toy_local + mset []\<rparr>)) = Inr toy_graph"
    by (simp add: toy_adapter_def toy_custom_def toy_world_def)
  have h5: "toy_fn 7 [] [] = Outcome 2 (Inr 7)"
    by (simp add: toy_fn_def)
  have k0: "?k0 = (fst ?k0, snd ?k0)" and k1: "?k1 = (fst ?k1, snd ?k1)"
    by simp_all
  have st: "step_counter toy_graph = 0" "hooks toy_local = {#}"
    by (simp_all add: toy_graph_def toy_local_def)
  from step_counter_counts_leftover_hooks [where fn = toy_fn and inputs = 7 and as = "[]"
      and kws = "[]", OF toy_custom_dispatch h2 h3 ha h4 h5 k0]
  have a: "step_counter (graphs (snd ?k0) 0) = 2"
    by (simp add: st)
  from step_counter_counts_leftover_hooks [where fn = toy_fn and inputs = 7 and as = "[]"
      and kws = "[]", OF g1 g2 g3 ga g4 h5 k1]
  have b: "step_counter (graphs (snd ?k1) 0) = 4"
    and c: "map_option hooks (local_model (snd ?k1)) = Some {#IncrementHook 0#}"
    by (simp_all add: st)
  show ?thesis
    unfolding f using ff h5 st(1) a b c by simp
qed

section \<open>Frozen parameters\<close>

lemma init_fields:
  assumes "AbstractModel_init ad src as alter_arg tok kws w = (r, s)"
  shows "dispatched s = (case src of Repo repo \<Rightarrow> False | Module c m \<Rightarrow> True)
       \<and> custom_model s = (case src of Repo repo \<Rightarrow> False | Module c m \<Rightarrow> True)
       \<and> local_model s = (case src of Repo repo \<Rightarrow> None | Module c m \<Rightarrow> Some m)
       \<and> edits s = []
       \<and> repoid_path_clsname s = (case src of Repo repo \<Rightarrow> repo | Module c m \<Rightarrow> c)"
  using assms
  by (auto simp: AbstractModel_init_def Let_def then_do_def with_cm_def build_meta_def
      call_run_meta_def enter_patcher_def exit_patcher_def log_def
      split: sum.splits prod.splits option.splits if_splits model_source.splits)

lemma dispatch_frozen:
  assumes "\<not> dispatched s" and "dispatch ad s = (Inr (), t)"
  shows "\<exists>m. load_local ad (repoid_path_clsname s) (args s) (kwargs s)
                (fold patch_install (patches (alteration_patcher s)) (bindings s)) = Inr m
            \<and> local_model t = Some (m\<lparr>params := map (\<lambda>p. (fst p, False)) (params m)\<rparr>)"
  using assms by (auto simp: dispatch_load Let_def freeze_def case_prod_unfold split: sum.splits)

lemma call_dispatched:
  assumes "AbstractModel_call ad fn inputs g as edits_arg inference kws s = (r, s')"
  shows "dispatched s' = dispatched s \<and> custom_model s' = custom_model s"
proof -
  define es where "es = (case edits_arg of None \<Rightarrow> edits s | Some es' \<Rightarrow> es')"
  from assms es_def show ?thesis
  proof (cases rule: call_cases)
    case (dispatch_fails e)
    then show ?thesis using dispatch_fields [of ad s "Inl e" s'] by simp
  next
    case (editor_fails t k m)
    then show ?thesis using dispatch_fields [of ad s "Inr ()" t] by simp
  next
    case (compile_fails t e)
    then show ?thesis using dispatch_fields [of ad s "Inr ()" t] by simp
  next
    case (no_local t gr)
    then show ?thesis using dispatch_fields [of ad s "Inr ()" t] by simp
  next
    case (fn_called t m gr n)
    then show ?thesis using dispatch_fields [of ad s "Inr ()" t] by simp
  qed
qed

lemma call_keeps_params:
  assumes "dispatch ad s = (Inr (), t)"
    and "AbstractModel_call ad fn inputs g as edits_arg inference kws s = (r, s')"
  shows "map_option params (local_model s') = map_option params (local_model t)"
proof -
  define es where "es = (case edits_arg of None \<Rightarrow> edits s | Some es' \<Rightarrow> es')"
  from assms(2) es_def show ?thesis
  proof (cases rule: call_cases)
    case (dispatch_fails e)
    with assms(1) show ?thesis by simp
  next
    case (editor_fails t' k m)
    with assms(1) show ?thesis by simp
  next
    case (compile_fails t' e)
    with assms(1) show ?thesis by simp
  next
    case (no_local t' gr)
    with assms(1) show ?thesis by simp
  next
    case (fn_called t' m gr n)
    with assms(1) show ?thesis by simp
  qed
qed

text \<open>
  Claim C9. When \<^verbatim>\<open>__call__\<close> loads the local model itself, the local model it stores
  is the model that \<^verbatim>\<open>_load_local\<close> returned, with the same parameters in the same order
  under the same names, each with \<^verbatim>\<open>requires_grad = False\<close>, and with nothing else
  changed; the parameters are so before the run starts and after it. A model constructed
  from a module has that module as its local model, unchanged, and starts dispatched; a
  call on a dispatched model loads nothing and leaves the parameters and their flags as they
  are. No call changes \<open>dispatched\<close>.
\<close>

theorem lazy_load_freezes_parameters:
  assumes "dispatch ad s = (Inr (), t)"
    and "AbstractModel_call ad fn inputs g as edits_arg inference kws s = (r, s')"
    and "AbstractModel_init ad (Module c m0) as0 alter_arg tok kws0 w = (r0, s0)"
  shows "(\<not> dispatched s \<longrightarrow>
            (\<exists>m. load_local ad (repoid_path_clsname s) (args s) (kwargs s)
                    (fold patch_install (patches (alteration_patcher s)) (bindings s)) = Inr m
                \<and> local_model t = Some (m\<lparr>params := map (\<lambda>p. (fst p, False)) (params m)\<rparr>)
                \<and> map_option params (local_model s') = Some (map (\<lambda>p. (fst p, False)) (params m))))
       \<and> dispatched s' = dispatched s
       \<and> local_model s0 = Some m0 \<and> dispatched s0 \<and> custom_model s0
       \<and> (dispatched s \<longrightarrow> t = s \<and> map_option params (local_model s') = map_option params (local_model s))"
proof -
  have keep: "map_option params (local_model s') = map_option params (local_model t)"
    by (rule call_keeps_params [OF assms(1,2)])
  have lazy: "\<not> dispatched s \<longrightarrow>
            (\<exists>m. load_local ad (repoid_path_clsname s) (args s) (kwargs s)
                    (fold patch_install (patches (alteration_patcher s)) (bindings s)) = Inr m
                \<and> local_model t = Some (m\<lparr>params := map (\<lambda>p. (fst p, False)) (params m)\<rparr>)
                \<and> map_option params (local_model s') = Some (map (\<lambda>p. (fst p, False)) (params m)))"
  proof
    assume nd: "\<not> dispatched s"
    then obtain m where m: "load_local ad (repoid_path_clsname s) (args s) (kwargs s)
                    (fold patch_install (patches (alteration_patcher s)) (bindings s)) = Inr m"
      "local_model t = Some (m\<lparr>params := map (\<lambda>p. (fst p, False)) (params m)\<rparr>)"
      using dispatch_frozen [OF _ assms(1)] by blast
    from keep m(2) have "map_option params (local_model s') = Some (map (\<lambda>p. (fst p, False)) (params m))"
      by simp
    with m show "\<exists>m. load_local ad (repoid_path_clsname s) (args s) (kwargs s)
                    (fold patch_install (patches (alteration_patcher s)) (bindings s)) = Inr m
                \<and> local_model t = Some (m\<lparr>params := map (\<lambda>p. (fst p, False)) (params m)\<rparr>)
                \<and> map_option params (local_model s') = Some (map (\<lambda>p. (fst p, False)) (params m))"
      by blast
  qed
  have dd: "dispatched s' = dispatched s"
    using call_dispatched [OF assms(2)] by simp
  have custom: "local_model s0 = Some m0 \<and> dispatched s0 \<and> custom_model s0"
    using init_fields [OF assms(3)] by simp
  have disp: "dispatched s \<longrightarrow> t = s \<and> map_option params (local_model s') = map_option params (local_model s)"
    using assms(1) keep by (auto simp: dispatch_dispatched)
  from lazy dd custom disp show ?thesis by blast
qed

lemma toy_custom_init:
  "AbstractModel_init toy_adapter (Module ''Toy'' toy_local) [] False None [] toy_world
     = (Inr (), toy_custom\<lparr>trace := [EvRunMeta]\<rparr>)"
  by (simp add: AbstractModel_init_def Let_def then_do_def with_cm_def build_meta_def
      call_run_meta_def enter_patcher_def exit_patcher_def log_def alteration_patcher_def
      Patcher_def Patcher_enter_def Patcher_exit_def toy_adapter_def toy_world_def toy_custom_def
      toy_local_def)

lemma toy_load_local:
  "load_local toy_adapter (repoid_path_clsname toy_repo) (args toy_repo) (kwargs toy_repo)
     (fold patch_install (patches (alteration_patcher toy_repo)) (bindings toy_repo)) = Inr toy_local"
  by (simp add: toy_adapter_def)

theorem lazy_load_freezes_parameters_witness:
  "\<not> dispatched toy_repo
   \<and> load_local toy_adapter (repoid_path_clsname toy_repo) (args toy_repo) (kwargs toy_repo)
        (fold patch_install (patches (alteration_patcher toy_repo)) (bindings toy_repo)) = Inr toy_local
   \<and> params toy_local = [(''layers.0.weight'', True), (''layers.0.bias'', False), (''layers.1.weight'', True)]
   \<and> dispatch toy_adapter toy_repo =
       (Inr (), toy_repo\<lparr>local_model := Some (freeze toy_local), trace := [EvLoadLocal, EvFreeze]\<rparr>)
   \<and> freeze toy_local =
       toy_local\<lparr>params := [(''layers.0.weight'', False), (''layers.0.bias'', False), (''layers.1.weight'', False)]\<rparr>
   \<and> map_option params
         (local_model (snd (AbstractModel_call toy_adapter toy_fn 7 0 [] None True [] toy_repo)))
       = Some [(''layers.0.weight'', False), (''layers.0.bias'', False), (''layers.1.weight'', False)]
   \<and> \<not> dispatched (snd (AbstractModel_call toy_adapter toy_fn 7 0 [] None True [] toy_repo))
   \<and> AbstractModel_init toy_adapter (Module ''Toy'' toy_local) [] False None [] toy_world
       = (Inr (), toy_custom\<lparr>trace := [EvRunMeta]\<rparr>)
   \<and> local_model (toy_custom\<lparr>trace := [EvRunMeta]\<rparr>) = Some toy_local
   \<and> dispatched (toy_custom\<lparr>trace := [EvRunMeta]\<rparr>)
   \<and> dispatched toy_custom
   \<and> map_option params
         (local_model (snd (AbstractModel_call toy_adapter toy_fn 7 0 [] None True [] toy_custom)))
       = Some [(''layers.0.weight'', True), (''layers.0.bias'', False), (''layers.1.weight'', True)]"
proof -
  let ?kr = "AbstractModel_call toy_adapter toy_fn 7 0 [] None True [] toy_repo"
  let ?kc = "AbstractModel_call toy_adapter toy_fn 7 0 [] None True [] toy_custom"
  let ?t = "toy_repo\<lparr>local_model := Some (freeze toy_local), trace := [EvLoadLocal, EvFreeze]\<rparr>"
  have kr: "?kr = (fst ?kr, snd ?kr)" and kc: "?kc = (fst ?kc, snd ?kc)"
    by simp_all
  have nd: "\<not> dispatched toy_repo" and d: "dispatched toy_custom"
    by (simp_all add: toy_repo_def toy_custom_def toy_world_def)
  have pl: "params toy_local
              = [(''layers.0.weight'', True), (''layers.0.bias'', False), (''layers.1.weight'', True)]"
    by (simp add: toy_local_def)
  have pc: "map_option params (local_model toy_custom)
              = Some [(''layers.0.weight'', True), (''layers.0.bias'', False), (''layers.1.weight'', True)]"
    by (simp add: toy_custom_def toy_local_def)
  from lazy_load_freezes_parameters [OF toy_repo_dispatch kr toy_custom_init] nd
  obtain m where m: "load_local toy_adapter (repoid_path_clsname toy_repo) (args toy_repo) (kwargs toy_repo)
        (fold patch_install (patches (alteration_patcher toy_repo)) (bindings toy_repo)) = Inr m"
      "local_model ?t = Some (m\<lparr>params := map (\<lambda>p. (fst p, False)) (params m)\<rparr>)"
      "map_option params (local_model (snd ?kr)) = Some (map (\<lambda>p. (fst p, False)) (params m))"
    and dr: "dispatched (snd ?kr) = dispatched toy_repo"
    and a: "local_model (toy_custom\<lparr>trace := [EvRunMeta]\<rparr>) = Some toy_local"
      "dispatched (toy_custom\<lparr>trace := [EvRunMeta]\<rparr>)"
    by blast
  from m(1) have mt: "m = toy_local"
    by (simp add: toy_load_local)
  from m(2) have fr: "freeze toy_local =
       toy_local\<lparr>params := [(''layers.0.weight'', False), (''layers.0.bias'', False), (''layers.1.weight'', False)]\<rparr>"
    by (simp add: mt pl)
  from m(3) have pr: "map_option params (local_model (snd ?kr))
       = Some [(''layers.0.weight'', False), (''layers.0.bias'', False), (''layers.1.weight'', False)]"
    by (simp add: mt pl)
  from lazy_load_freezes_parameters [OF toy_custom_dispatch kc toy_custom_init] d
  have b: "map_option params (local_model (snd ?kc)) = map_option params (local_model toy_custom)"
    by blast
  from a b show ?thesis
    using nd d fr pr pc pl dr toy_repo_dispatch toy_custom_init toy_load_local by simp
qed

section \<open>Meta run and dispatch\<close>

lemma dispatch_events_exact:
  assumes "dispatch ad s = (r, t)"
  shows "new_events s t =
           (if dispatched s then []
            else case r of Inl e \<Rightarrow> [EvLoadLocal] | Inr u \<Rightarrow> [EvLoadLocal, EvFreeze])"
proof (cases "dispatched s")
  case True
  with assms show ?thesis by (simp add: dispatch_dispatched new_events_def)
next
  case False
  with assms show ?thesis
    by (auto simp: dispatch_load Let_def new_events_def split: sum.splits)
qed

lemma call_eventsI:
  assumes "dispatch ad s = (rd, t)" and "new_events s s' = new_events s t @ B"
    and "EvLoadLocal \<notin> set B \<and> EvRunMeta \<notin> set B" and "dispatched s' = dispatched s"
  shows "\<exists>rd t B. dispatch ad s = (rd, t) \<and> new_events s s' = new_events s t @ B
           \<and> EvLoadLocal \<notin> set B \<and> EvRunMeta \<notin> set B \<and> dispatched s' = dispatched s"
  using assms by blast

lemma call_events:
  assumes "AbstractModel_call ad fn inputs g as edits_arg inference kws s = (r, s')"
  shows "\<exists>rd t B. dispatch ad s = (rd, t) \<and> new_events s s' = new_events s t @ B
           \<and> EvLoadLocal \<notin> set B \<and> EvRunMeta \<notin> set B \<and> dispatched s' = dispatched s"
proof -
  define es where "es = (case edits_arg of None \<Rightarrow> edits s | Some es' \<Rightarrow> es')"
  from assms es_def show ?thesis
  proof (cases rule: call_cases)
    case (dispatch_fails e)
    have ne: "new_events s s' = new_events s s' @ []" by simp
    have ds: "dispatched s' = dispatched s"
      using dispatch_fields [OF dispatch_fails(1)] by simp
    show ?thesis
      by (rule call_eventsI [OF dispatch_fails(1) ne _ ds]) simp
  next
    case (editor_fails t k m)
    let ?B = "map EvEdit (take (Suc k) es)"
    have tr: "trace t = trace s @ new_events s t"
      using dispatch_trace [OF editor_fails(1)] by (auto simp: new_events_def)
    have ne: "new_events s s' = new_events s t @ ?B"
      by (rule new_events_append) (simp add: editor_fails(6), subst tr, simp)
    have ds: "dispatched s' = dispatched s"
      using dispatch_fields [OF editor_fails(1)] by (simp add: editor_fails(6))
    have q: "EvLoadLocal \<notin> set ?B \<and> EvRunMeta \<notin> set ?B"
      by auto
    show ?thesis
      by (rule call_eventsI [OF editor_fails(1) ne q ds])
  next
    case (compile_fails t e)
    let ?B = "map EvEdit es @ [EvCompile g] @ map EvRestore es"
    have tr: "trace t = trace s @ new_events s t"
      using dispatch_trace [OF compile_fails(1)] by (auto simp: new_events_def)
    have ne: "new_events s s' = new_events s t @ ?B"
      by (rule new_events_append) (simp add: compile_fails(5), subst tr, simp)
    have ds: "dispatched s' = dispatched s"
      using dispatch_fields [OF compile_fails(1)] by (simp add: compile_fails(5))
    have q: "EvLoadLocal \<notin> set ?B \<and> EvRunMeta \<notin> set ?B"
      by auto
    show ?thesis
      by (rule call_eventsI [OF compile_fails(1) ne q ds])
  next
    case (no_local t gr)
    let ?B = "map EvEdit es @ [EvCompile g, EvRegisterIncrement g] @ map EvRestore es"
    have tr: "trace t = trace s @ new_events s t"
      using dispatch_trace [OF no_local(1)] by (auto simp: new_events_def)
    have ne: "new_events s s' = new_events s t @ ?B"
      by (rule new_events_append) (simp add: no_local(5), subst tr, simp)
    have ds: "dispatched s' = dispatched s"
      using dispatch_fields [OF no_local(1)] by (simp add: no_local(5))
    have q: "EvLoadLocal \<notin> set ?B \<and> EvRunMeta \<notin> set ?B"
      by auto
    show ?thesis
      by (rule call_eventsI [OF no_local(1) ne q ds])
  next
    case (fn_called t m gr n)
    let ?B = "map EvEdit es
               @ [EvCompile g, EvRegisterIncrement g,
                  if inference then EvEval else EvTrain, EvInferenceEnter inference]
               @ map EvHookInstall (hooked_modules gr) @ [EvFn inputs as kws inference (Some (\<not> inference))]
               @ replicate n EvForward @ map EvHookRemove (hooked_modules gr)
               @ [EvInferenceExit]
               @ (case r of Inl e \<Rightarrow> [] | Inr out \<Rightarrow> [EvRemoveIncrement g])
               @ map EvRestore es"
    have tr: "trace t = trace s @ new_events s t"
      using dispatch_trace [OF fn_called(1)] by (auto simp: new_events_def)
    have ne: "new_events s s' = new_events s t @ ?B"
      by (rule new_events_append) (simp add: fn_called(6), subst tr, simp)
    have ds: "dispatched s' = dispatched s"
      using dispatch_fields [OF fn_called(1)] by (simp add: fn_called(6))
    have q: "EvLoadLocal \<notin> set ?B \<and> EvRunMeta \<notin> set ?B"
      by (auto split: sum.splits)
    show ?thesis
      by (rule call_eventsI [OF fn_called(1) ne q ds])
  qed
qed

lemma call_load_count:
  assumes "AbstractModel_call ad fn inputs g as edits_arg inference kws s = (r, s')"
  shows "count_list (new_events s s') EvLoadLocal = (if dispatched s then 0 else 1)
       \<and> EvRunMeta \<notin> set (new_events s s') \<and> dispatched s' = dispatched s"
proof -
  obtain rd t B where *: "dispatch ad s = (rd, t)" "new_events s s' = new_events s t @ B"
      "EvLoadLocal \<notin> set B" "EvRunMeta \<notin> set B" "dispatched s' = dispatched s"
    using call_events [OF assms] by blast
  show ?thesis
    using *(2-5) by (auto simp: dispatch_events_exact [OF *(1)] split: sum.splits)
qed

lemma init_events:
  assumes "AbstractModel_init ad src as alter_arg tok kws w = (Inr (), s)"
  shows "new_events w s = (case src of Repo repo \<Rightarrow> [EvLoadMeta] | Module c m \<Rightarrow> []) @ [EvRunMeta]"
  using assms
  by (auto simp: AbstractModel_init_def Let_def then_do_def with_cm_def build_meta_def
      call_run_meta_def enter_patcher_def exit_patcher_def log_def new_events_def
      split: sum.splits prod.splits option.splits if_splits model_source.splits)

text \<open>
  Claim C2. The meta run happens once, in the constructor, and no call repeats it. The
  local model, however, is not loaded once: \<^verbatim>\<open>__call__\<close> never sets \<open>dispatched\<close>,
  so a model built from a repository id is still not dispatched after its first call, and
  the second call invokes \<^verbatim>\<open>_load_local\<close> again.
\<close>

theorem second_call_loads_again:
  assumes "AbstractModel_init ad (Repo repo) as0 alter_arg tok kws0 w = (Inr (), s0)"
    and "AbstractModel_call ad fn1 i1 g1 as1 e1 inf1 kws1 s0 = (r1, s1)"
    and "AbstractModel_call ad fn2 i2 g2 as2 e2 inf2 kws2 s1 = (r2, s2)"
  shows "count_list (new_events w s0) EvRunMeta = 1
       \<and> EvRunMeta \<notin> set (new_events s0 s1) \<and> EvRunMeta \<notin> set (new_events s1 s2)
       \<and> \<not> dispatched s0
       \<and> count_list (new_events s0 s1) EvLoadLocal = 1
       \<and> \<not> dispatched s1
       \<and> count_list (new_events s1 s2) EvLoadLocal = 1"
proof -
  have nd: "\<not> dispatched s0"
    using init_fields [OF assms(1)] by simp
  have "count_list (new_events w s0) EvRunMeta = 1"
    by (simp add: init_events [OF assms(1)])
  with nd call_load_count [OF assms(2)] call_load_count [OF assms(3)]
  show ?thesis by simp
qed

lemma toy_repo_init:
  "AbstractModel_init toy_adapter (Repo ''toy/two-layer'') [] True None [] toy_world
     = (Inr (), toy_repo\<lparr>trace := [EvLoadMeta, EvRunMeta]\<rparr>)"
  by (simp add: AbstractModel_init_def Let_def then_do_def with_cm_def build_meta_def
      call_run_meta_def enter_patcher_def exit_patcher_def log_def alteration_patcher_def
      alteration_def Patcher_def Patcher_enter_def Patcher_exit_def toy_adapter_def
      toy_world_def toy_repo_def)

theorem second_call_loads_again_witness:
  "AbstractModel_init toy_adapter (Repo ''toy/two-layer'') [] True None [] toy_world
     = (Inr (), toy_repo\<lparr>trace := [EvLoadMeta, EvRunMeta]\<rparr>)
   \<and> \<not> dispatched
         (snd (AbstractModel_call toy_adapter toy_fn 7 0 [] None True []
                 (toy_repo\<lparr>trace := [EvLoadMeta, EvRunMeta]\<rparr>)))
   \<and> count_list
         (new_events
            (snd (AbstractModel_call toy_adapter toy_fn 7 0 [] None True []
                    (toy_repo\<lparr>trace := [EvLoadMeta, EvRunMeta]\<rparr>)))
            (snd (AbstractModel_call toy_adapter toy_fn 8 0 [] None True []
                    (snd (AbstractModel_call toy_adapter toy_fn 7 0 [] None True []
                            (toy_repo\<lparr>trace := [EvLoadMeta, EvRunMeta]\<rparr>))))))
         EvLoadLocal = 1"
proof -
  let ?s0 = "toy_repo\<lparr>trace := [EvLoadMeta, EvRunMeta]\<rparr>"
  let ?k1 = "AbstractModel_call toy_adapter toy_fn 7 0 [] None True [] ?s0"
  let ?k2 = "AbstractModel_call toy_adapter toy_fn 8 0 [] None True [] (snd ?k1)"
  have k1: "?k1 = (fst ?k1, snd ?k1)" and k2: "?k2 = (fst ?k2, snd ?k2)"
    by simp_all
  from second_call_loads_again [OF toy_repo_init k1 k2] toy_repo_init
  show ?thesis by simp
qed

section \<open>Edits made by modulize\<close>







lemma modulize_missing_node:
  assumes "map_of (nodes (graphs s (module_graph md))) nname = None"
    and "WrapperModuleEdit (module_path md) mname (Some (module_path md @ ''.'' @ mname))
           \<notin># meta_applied (meta_model s)"
  shows "modulize ad md nname mname s =
           (Inl KeyError,
            s\<lparr>meta_model := (meta_model s)\<lparr>meta_applied :=
                  add_mset (WrapperModuleEdit (module_path md) mname (Some (module_path md @ ''.'' @ mname)))
                    (meta_applied (meta_model s))\<rparr>\<rparr>)"
  using assms by (simp add: modulize_def Let_def then_do_def meta_edit_def edit_apply_def)







lemma appliable_toy_edits:
  "appliable [WrapperModuleEdit ''layers.0'' ''probe'' (Some ''layers.0.probe''), GraphEdit ''layers.0'' 0] {#}"
  by simp



section \<open>Patches during tracing\<close>

lemma Mamba_scan_eq:
  "Mamba_scan meta_forward b =
     (meta_forward
        (b((''mamba_ssm.modules.mamba_simple'', ''rms_norm_fn'') := ''blah'',
           (''mamba_ssm.models.mixer_seq_simple'', ''rms_norm_fn'') := ''blah1'',
           (''causal_conv1d_cuda'', ''causal_conv1d_fwd'') := ''blah2'',
           (''selective_scan_cuda'', ''fwd'') := ''blah3'')),
      b)"
  by (simp add: Mamba_scan_def Let_def Patcher_enter_def Patcher_add_def Patcher_exit_def
      Patcher_def Patch_def patch_install_def patch_restore_def fun_eq_iff)

lemma build_meta_bindings: "bindings (snd (build_meta ad s)) = bindings s"
  by (simp add: build_meta_def log_def split: option.splits sum.splits)

lemma patched_build_meta_bindings:
  assumes "patches pt = []"
  shows "bindings (snd (with_cm (enter_patcher pt) (exit_patcher pt) (build_meta ad) s)) = bindings s"
proof -
  have e: "enter_patcher pt s = s"
    by (simp add: enter_patcher_def Patcher_enter_def assms)
  have "bindings (snd (with_cm (enter_patcher pt) (exit_patcher pt) (build_meta ad) s))
          = bindings (exit_patcher pt (snd (build_meta ad s)))"
    by (simp add: with_cm_def e split: prod.splits)
  also have "\<dots> = bindings (snd (build_meta ad s))"
    by (simp add: exit_patcher_def Patcher_exit_def assms)
  finally show ?thesis by (simp add: build_meta_bindings)
qed

lemma call_run_meta_bindings:
  assumes "\<And>b. snd (run_meta ad b) = b"
  shows "bindings (snd (call_run_meta ad s)) = bindings s"
proof -
  obtain r b where rb: "run_meta ad (bindings s) = (r, b)"
    by (cases "run_meta ad (bindings s)")
  with assms [of "bindings s"] have "b = bindings s" by simp
  with rb show ?thesis
    by (cases r) (simp_all add: call_run_meta_def log_def)
qed

lemma then_do_bindings:
  assumes "\<And>s. bindings (snd (m s)) = bindings s" and "\<And>a s. bindings (snd (f a s)) = bindings s"
  shows "bindings (snd (then_do m f s)) = bindings s"
proof (cases "m s")
  case (Pair r s')
  with assms(1) [of s] have b: "bindings s' = bindings s" by simp
  show ?thesis
  proof (cases r)
    case (Inl e)
    with Pair b show ?thesis by (simp add: then_do_def)
  next
    case (Inr a)
    with Pair b assms(2) [of a s'] show ?thesis by (simp add: then_do_def)
  qed
qed

lemma init_bindings:
  assumes "alter_arg \<longrightarrow> REPOID_TO_ALTERATION w (case src of Repo r \<Rightarrow> r | Module c m \<Rightarrow> c) = None"
    and "\<And>b. snd (run_meta ad b) = b"
  shows "bindings (snd (AbstractModel_init ad src as alter_arg tok kws w)) = bindings w"
proof -
  let ?s0 = "w\<lparr>repoid_path_clsname := (case src of Repo r \<Rightarrow> r | Module c m \<Rightarrow> c),
                 args := as, kwargs := kws, alter := alter_arg,
                 dispatched := (case src of Repo r \<Rightarrow> False | Module c m \<Rightarrow> True),
                 custom_model := (case src of Repo r \<Rightarrow> False | Module c m \<Rightarrow> True),
                 local_model := (case src of Repo r \<Rightarrow> None | Module c m \<Rightarrow> Some m),
                 tokenizer := tok, edits := []\<rparr>"
  have p: "patches (alteration_patcher ?s0) = []"
    using assms(1) by (simp add: alteration_patcher_def alteration_def Patcher_def)
  have "AbstractModel_init ad src as alter_arg tok kws w =
          then_do (with_cm (enter_patcher (alteration_patcher ?s0)) (exit_patcher (alteration_patcher ?s0))
                     (build_meta ad))
                  (\<lambda>_. call_run_meta ad) ?s0"
    by (simp add: AbstractModel_init_def Let_def)
  then have "bindings (snd (AbstractModel_init ad src as alter_arg tok kws w)) = bindings ?s0"
    by (simp only: then_do_bindings [OF patched_build_meta_bindings [OF p]
          call_run_meta_bindings [OF assms(2)]])
  then show ?thesis by simp
qed

lemma MambaInterp_init_eq:
  "MambaInterp_init meta_forward ad src as alter_arg tok kws w =
     AbstractModel_init (Mamba_adapter meta_forward ad) src as alter_arg tok kws
       (w\<lparr>bindings := (bindings w)((''mamba_ssm.models.mixer_seq_simple'', ''Mamba'') := ''MambaModuleInterp'')\<rparr>)"
  by (simp add: MambaInterp_init_def Let_def Patcher_add_def Patcher_enter_def Patcher_def
      Patch_def patch_install_def)

text \<open>
  Claim C3, amended. The four patches that \<^verbatim>\<open>Mamba._scan\<close> installs are in place for the
  meta forward call and every binding is back to what it was when \<^verbatim>\<open>_scan\<close> ends, also
  when the meta forward raises; the substitution of the \<^verbatim>\<open>Mamba\<close> class that
  \<^verbatim>\<open>MambaInterp.__init__\<close> installs is entered and not exited, so it is still in place
  after construction (for a model without a registered alteration, whose patcher would
  otherwise touch bindings of its own).
\<close>

theorem scan_patches_scoped_class_patch_stays:
  assumes "alter_arg \<longrightarrow> REPOID_TO_ALTERATION w (case src of Repo r \<Rightarrow> r | Module c m \<Rightarrow> c) = None"
  shows "snd (Mamba_scan meta_forward b) = b
       \<and> fst (Mamba_scan meta_forward b) =
           meta_forward
             (b((''mamba_ssm.modules.mamba_simple'', ''rms_norm_fn'') := ''blah'',
                (''mamba_ssm.models.mixer_seq_simple'', ''rms_norm_fn'') := ''blah1'',
                (''causal_conv1d_cuda'', ''causal_conv1d_fwd'') := ''blah2'',
                (''selective_scan_cuda'', ''fwd'') := ''blah3''))
       \<and> bindings (snd (MambaInterp_init meta_forward ad src as alter_arg tok kws w)) =
           (bindings w)((''mamba_ssm.models.mixer_seq_simple'', ''Mamba'') := ''MambaModuleInterp'')"
proof -
  have rm: "\<And>b. snd (run_meta (Mamba_adapter meta_forward ad) b) = b"
    by (simp add: Mamba_adapter_def Mamba_scan_eq)
  have "bindings (snd (MambaInterp_init meta_forward ad src as alter_arg tok kws w)) =
           (bindings w)((''mamba_ssm.models.mixer_seq_simple'', ''Mamba'') := ''MambaModuleInterp'')"
    unfolding MambaInterp_init_eq
    by (subst init_bindings [OF _ rm]) (use assms in simp_all)
  then show ?thesis by (simp add: Mamba_scan_eq)
qed

text \<open>
  Claim C3 as stated fails: after \<^verbatim>\<open>MambaInterp.__init__\<close> has returned, the attribute
  \<^verbatim>\<open>Mamba\<close> of \<^verbatim>\<open>mamba_ssm.models.mixer_seq_simple\<close> is bound to
  \<^verbatim>\<open>MambaModuleInterp\<close>, not to the original class.
\<close>

theorem class_patch_outlives_construction:
  "fst (MambaInterp_init toy_meta_forward toy_adapter (Repo ''state-spaces/mamba-130m'') [] True None []
          toy_world) = Inr ()
   \<and> bindings toy_world (''mamba_ssm.models.mixer_seq_simple'', ''Mamba'') = ''original''
   \<and> bindings (snd (MambaInterp_init toy_meta_forward toy_adapter (Repo ''state-spaces/mamba-130m'') [] True None []
          toy_world)) (''mamba_ssm.models.mixer_seq_simple'', ''Mamba'') = ''MambaModuleInterp''"
  by (simp add: MambaInterp_init_eq AbstractModel_init_def Let_def then_do_def with_cm_def
      build_meta_def call_run_meta_def enter_patcher_def exit_patcher_def log_def
      alteration_patcher_def alteration_def Patcher_def Patcher_enter_def Patcher_exit_def
      Mamba_adapter_def Mamba_scan_eq toy_adapter_def toy_world_def toy_meta_forward_def)

theorem scan_patches_scoped_class_patch_stays_witness:
  "REPOID_TO_ALTERATION toy_world ''state-spaces/mamba-130m'' = None
   \<and> Mamba_scan toy_meta_forward
        (bindings toy_world) = (None, bindings toy_world)
   \<and> bindings (snd (MambaInterp_init toy_meta_forward toy_adapter (Repo ''state-spaces/mamba-130m'') [] True None []
          toy_world)) (''mamba_ssm.models.mixer_seq_simple'', ''Mamba'') = ''MambaModuleInterp''
   \<and> bindings (snd (MambaInterp_init toy_meta_forward toy_adapter (Repo ''state-spaces/mamba-130m'') [] True None []
          toy_world)) (''selective_scan_cuda'', ''fwd'') = ''original''"
proof -
  have h: "True \<longrightarrow> REPOID_TO_ALTERATION toy_world
             (case Repo ''state-spaces/mamba-130m'' of Repo r \<Rightarrow> r | Module c m \<Rightarrow> c) = None"
    by (simp add: toy_world_def)
  have o: "bindings toy_world = (\<lambda>k. ''original'')"
    by (simp add: toy_world_def)
  from scan_patches_scoped_class_patch_stays [OF h,
      where meta_forward = toy_meta_forward
        and b = "bindings toy_world"]
  have "snd (Mamba_scan toy_meta_forward
        (bindings toy_world)) = bindings toy_world"
    and "fst (Mamba_scan toy_meta_forward
        (bindings toy_world)) = None"
    by (simp_all add: toy_meta_forward_def)
  then have a: "Mamba_scan toy_meta_forward
        (bindings toy_world) = (None, bindings toy_world)"
    by (simp add: prod_eq_iff)
  from scan_patches_scoped_class_patch_stays [OF h, where meta_forward = toy_meta_forward
      and ad = toy_adapter and as = "[]" and tok = None and kws = "[]"]
  have b: "bindings (snd (MambaInterp_init toy_meta_forward toy_adapter (Repo ''state-spaces/mamba-130m'') [] True None []
          toy_world)) = (bindings toy_world)((''mamba_ssm.models.mixer_seq_simple'', ''Mamba'') := ''MambaModuleInterp'')"
    by simp
  show ?thesis
    using a by (simp add: b o) (simp add: toy_world_def)
qed

section \<open>The loop of SSM.forward\<close>

lemma ssm_loop_upt:
  "ssm_loop ops cx dstate L dA dB x C [k..<k + n] (hidden ops dA dB x k, ys, lst) =
     (hidden ops dA dB x (k + n),
      ys @ map (emitted ops cx dstate dA dB x C) [k..<k + n],
      if k < L \<and> L \<le> k + n then Some (hidden ops dA dB x L) else lst)"
proof (induction n arbitrary: k ys lst)
  case 0
  show ?case by auto
next
  case (Suc n)
  have u: "[k..<k + Suc n] = k # [Suc k..<Suc k + n]"
    by (simp add: upt_conv_Cons)
  have step: "Hx_forward ops (\<lambda>b d n. dA b d k n) (\<lambda>b d n. dB b d k n) (\<lambda>b d. x b d k)
                 (hidden ops dA dB x k) = hidden ops dA dB x (Suc k)"
    by (simp add: Hx_forward_def)
  have y: "Yh_forward ops cx dstate (hidden ops dA dB x (Suc k)) (\<lambda>b n. C b n k)
             = emitted ops cx dstate dA dB x C k"
    by (simp add: Yh_forward_def emitted_def)
  have "ssm_loop ops cx dstate L dA dB x C [k..<k + Suc n] (hidden ops dA dB x k, ys, lst) =
        ssm_loop ops cx dstate L dA dB x C [Suc k..<Suc k + n]
          (hidden ops dA dB x (Suc k), ys @ [emitted ops cx dstate dA dB x C k],
           if int k = int L - 1 then Some (hidden ops dA dB x (Suc k)) else lst)"
    unfolding u by (simp only: ssm_loop.simps Let_def step y)
  also have "\<dots> = (hidden ops dA dB x (Suc k + n),
      (ys @ [emitted ops cx dstate dA dB x C k]) @ map (emitted ops cx dstate dA dB x C) [Suc k..<Suc k + n],
      if Suc k < L \<and> L \<le> Suc k + n then Some (hidden ops dA dB x L)
      else if int k = int L - 1 then Some (hidden ops dA dB x (Suc k)) else lst)"
    by (rule Suc.IH)
  also have "\<dots> = (hidden ops dA dB x (k + Suc n),
      ys @ map (emitted ops cx dstate dA dB x C) [k..<k + Suc n],
      if k < L \<and> L \<le> k + Suc n then Some (hidden ops dA dB x L) else lst)"
  proof -
    have "int k = int L - 1 \<longleftrightarrow> L = Suc k" by auto
    then show ?thesis
      unfolding u by (auto simp del: hidden.simps)
  qed
  finally show ?case .
qed


lemma ssm_loop_all:
  assumes "1 \<le> L"
  shows "ssm_loop ops cx dstate L dA dB x C [0..<L] ((\<lambda>b d n. s_zero ops), [], None) =
     (hidden ops dA dB x L, map (emitted ops cx dstate dA dB x C) [0..<L],
      Some (hidden ops dA dB x L))"
  using ssm_loop_upt [of ops cx dstate L dA dB x C 0 L "[]" None] assms by simp

text \<open>
  Claim C10. For an input of \<open>L \<ge> 1\<close> tokens \<^verbatim>\<open>SSM.forward\<close> returns, and what it
  returns is the linear recurrence: with \<^verbatim>\<open>deltaA\<close> and \<^verbatim>\<open>deltaB\<close> as in the claim, the
  output at token \<open>l\<close> is the contraction of the hidden state after that token with
  \<^verbatim>\<open>C[:,:,l]\<close> (twice its real part when complex), plus the skip term \<^verbatim>\<open>x * D\<close> when
  \<^verbatim>\<open>D\<close> is given, times \<^verbatim>\<open>silu(z)\<close> when \<^verbatim>\<open>z\<close> is given, cast to the input dtype;
  with \<^verbatim>\<open>return_last_state\<close> the second component is the hidden state after all \<open>L\<close>
  tokens, and without it the same output is returned alone.
\<close>

theorem SSM_forward_recurrence:
  assumes len: "1 \<le> L"
    and prep: "Bc = (if cx then as_complex ops B else as_float ops B)"
      "Cc = (if cx then as_complex ops C else as_float ops C)"
      "dA = discretized_A ops (as_float ops delta) A"
      "dB = discretized_B ops (as_float ops delta) Bc"
  shows "\<exists>out. SSM_forward ops cx dstate L x delta A B C D z True
                = Inr (OutAndState out (Some (hidden ops dA dB (as_float ops x) L)))
             \<and> SSM_forward ops cx dstate L x delta A B C D z False = Inr (Out out)
             \<and> (\<forall>b d l. l < L \<longrightarrow>
                   out b d l = output_at ops (as_float ops x) D z
                                 (emitted ops cx dstate dA dB (as_float ops x) Cc l) b d l)"
proof -
  let ?x = "as_float ops x"
  let ?ys = "map (emitted ops cx dstate dA dB ?x Cc) [0..<L]"
  let ?out = "\<lambda>b d l. s_cast ops
     ((case z of None \<Rightarrow>
         (case D of None \<Rightarrow> (\<lambda>b d l. (?ys ! l) b d)
          | Some Dv \<Rightarrow> (\<lambda>b d l. s_add ops ((?ys ! l) b d) (s_mul ops (?x b d l) (Dv d))))
       | Some zv \<Rightarrow> (\<lambda>b d l. s_mul ops
            ((case D of None \<Rightarrow> (\<lambda>b d l. (?ys ! l) b d)
              | Some Dv \<Rightarrow> (\<lambda>b d l. s_add ops ((?ys ! l) b d) (s_mul ops (?x b d l) (Dv d)))) b d l)
            (s_silu ops (zv b d l)))) b d l)"
  have ne: "?ys \<noteq> []"
    using len by simp
  have lp: "ssm_loop ops cx dstate L dA dB ?x Cc [0..<L] ((\<lambda>b d n. s_zero ops), [], None) =
     (hidden ops dA dB ?x L, ?ys, Some (hidden ops dA dB ?x L))"
    by (rule ssm_loop_all [OF len])
  have pre: "DiscA_forward ops (\<lambda>b d l. s_float ops (delta b d l)) A = dA"
    "DiscB_forward ops (\<lambda>b d l. s_float ops (delta b d l))
        (if cx then (\<lambda>b n l. s_complex ops (s_float ops (B b n (2 * l))) (s_float ops (B b n (2 * l + 1))))
         else (\<lambda>b n l. s_float ops (B b n l))) = dB"
    "(if cx then (\<lambda>b n l. s_complex ops (s_float ops (C b n (2 * l))) (s_float ops (C b n (2 * l + 1))))
         else (\<lambda>b n l. s_float ops (C b n l))) = Cc"
    "(\<lambda>b d l. s_float ops (x b d l)) = ?x"
    by (simp_all add: prep DiscA_forward_def DiscB_forward_def discretized_A_def
        discretized_B_def as_float_def as_complex_def)
  have t: "SSM_forward ops cx dstate L x delta A B C D z True
             = Inr (OutAndState ?out (Some (hidden ops dA dB ?x L)))"
    unfolding SSM_forward_def Let_def pre lp
    using len by (simp add: stack_def split: option.splits)
  have f: "SSM_forward ops cx dstate L x delta A B C D z False = Inr (Out ?out)"
    unfolding SSM_forward_def Let_def pre lp
    using len by (simp add: stack_def split: option.splits)
  have p: "\<forall>b d l. l < L \<longrightarrow>
             ?out b d l = output_at ops ?x D z (emitted ops cx dstate dA dB ?x Cc l) b d l"
    by (simp add: output_at_def Let_def split: option.splits)
  from t f p show ?thesis by blast
qed

theorem SSM_forward_recurrence_witness:
  "(1::nat) \<le> 2
   \<and> (case SSM_forward real_ops False 1 2 ssm_x ssm_delta ssm_A ssm_B ssm_C (Some ssm_D) None True of
         Inr (OutAndState out (Some h)) \<Rightarrow>
           out 0 0 0 = 51 \<and> out 0 0 1 = 81 \<and> h 0 0 0 = 12
       | _ \<Rightarrow> False)"
proof -
  let ?dA = "discretized_A real_ops (as_float real_ops ssm_delta) ssm_A"
  let ?dB = "discretized_B real_ops (as_float real_ops ssm_delta) (as_float real_ops ssm_B)"
  let ?C = "as_float real_ops ssm_C"
  let ?x = "as_float real_ops ssm_x"
  have len: "(1::nat) \<le> 2" by simp
  have b: "as_float real_ops ssm_B = (if False then as_complex real_ops ssm_B else as_float real_ops ssm_B)"
    and c: "?C = (if False then as_complex real_ops ssm_C else as_float real_ops ssm_C)"
    by simp_all
  from SSM_forward_recurrence [OF len b c refl refl, where delta = ssm_delta and A = ssm_A
      and dstate = 1 and x = ssm_x and D = "Some ssm_D" and z = None]
  obtain out where o: "SSM_forward real_ops False 1 2 ssm_x ssm_delta ssm_A ssm_B ssm_C (Some ssm_D) None True
                = Inr (OutAndState out (Some (hidden real_ops ?dA ?dB ?x 2)))"
    and p: "\<And>b d l. l < 2 \<Longrightarrow>
                   out b d l = output_at real_ops ?x (Some ssm_D) None
                                 (emitted real_ops False 1 ?dA ?dB ?x ?C l) b d l"
    by blast
  have h1: "hidden real_ops ?dA ?dB ?x (Suc 0) 0 0 0 = 6"
    by (simp add: real_ops_def discretized_A_def discretized_B_def as_float_def
        ssm_x_def ssm_delta_def ssm_A_def ssm_B_def)
  have h2: "hidden real_ops ?dA ?dB ?x (Suc (Suc 0)) 0 0 0 = 12"
    by (simp add: real_ops_def discretized_A_def discretized_B_def as_float_def
        ssm_x_def ssm_delta_def ssm_A_def ssm_B_def)
  have o0: "out 0 0 0 = 51"
    using h1 by (simp add: p output_at_def emitted_def)
      (simp add: real_ops_def as_float_def ssm_x_def ssm_C_def ssm_D_def)
  have o1: "out 0 0 1 = 81"
    using h2 by (simp add: p output_at_def emitted_def)
      (simp add: real_ops_def as_float_def ssm_x_def ssm_C_def ssm_D_def)
  have h2': "hidden real_ops ?dA ?dB ?x 2 0 0 0 = 12"
    using h2 by (simp add: numeral_2_eq_2)
  show ?thesis
    unfolding o using o0 o1 h2' by simp
qed

end
